theory Spec2Isabelle
  imports Main "HOL-Library.Word"
begin

unbundle bit_operations_syntax

section \<open>The schema model (idl.ts)\<close>

text \<open>
  The type tags of the schema. The fourteen primitive tags are JavaScript strings; the four
  composite forms are objects with exactly one key (\<open>Defined\<close>, \<open>Option\<close>, \<open>Vec\<close>,
  \<open>Array\<close>). The length of an \<open>Array\<close> is a natural number. The fields of the records
  below are prefixed with the name of their type: \<open>field_name\<close> is \<open>IdlField.name\<close>,
  \<open>variant_fields\<close> is \<open>IdlEnumVariant.fields\<close>, and so on; an optional property is an
  \<open>option\<close>, \<open>None\<close> when it is \<open>undefined\<close>. The struct fields are optional because
  \<open>accountSize\<close> tests them for \<open>undefined\<close>.
\<close>

datatype IdlType =
    Bool | U8 | I8 | U16 | I16 | U32 | I32 | U64 | I64 | U128 | I128
  | Bytes | String | PublicKey
  | Defined string
  | Option IdlType
  | Vec IdlType
  | Array IdlType nat

record IdlField =
  field_name :: string
  field_type :: IdlType

text \<open>
  An element of \<open>IdlEnumVariant.fields\<close> is either a named field (an object with a
  \<open>name\<close>) or, for a tuple-style variant, a bare type.
\<close>

datatype IdlEnumField = Named IdlField | Tuple IdlType

record IdlEnumVariant =
  variant_name :: string
  variant_fields :: "IdlEnumField list option"

datatype IdlTypeDefTy =
    Enum "IdlEnumVariant list"
  | Struct "IdlField list option"

record IdlTypeDef =
  typedef_name :: string
  typedef_type :: IdlTypeDefTy

text \<open>
  Of the schema root only \<open>types\<close> is read by the functions below; it is optional.
\<close>

record Idl =
  idl_version :: string
  idl_name :: string
  idl_types :: "IdlTypeDef list option"


section \<open>Errors and results\<close>

text \<open>
  The exceptions the code can throw. \<open>IdlError_TypeNotFound d\<close> is
  \<open>new IdlError(`Type not found: ...`)\<close> for the reference \<open>Defined d\<close>,
  \<open>IdlError_TypesNotProvided\<close> is \<open>new IdlError("User defined types not provided")\<close>,
  \<open>Error_TupleEnum\<close> is \<open>new Error("Tuple enum variants not yet implemented.")\<close>.
  \<open>TypeError\<close> and \<open>RangeError\<close> are the exceptions of the JavaScript runtime
  (\<open>in\<close> applied to \<open>undefined\<close>, a property read on \<open>undefined\<close>, \<open>reduce\<close> of
  an empty array without an initial value; a write outside a buffer).

  Both recursive functions of the code look type definitions up by name on every call and
  have no guard against a definition that refers to itself, so they take fuel: the result
  \<open>None\<close> means that the fuel ran out, \<open>Some (Inl e)\<close> that \<open>e\<close> was thrown and
  \<open>Some (Inr v)\<close> that \<open>v\<close> was returned.
\<close>

datatype error =
    IdlError_TypeNotFound string
  | IdlError_TypesNotProvided
  | Error_TupleEnum
  | TypeError
  | RangeError

type_synonym 'a result = "(error + 'a) option"

text \<open>Continuing with a returned value; an exception or exhausted fuel passes through.\<close>

fun map_result :: "('a \<Rightarrow> 'b) \<Rightarrow> 'a result \<Rightarrow> 'b result" where
  "map_result f None = None"
| "map_result f (Some (Inl e)) = Some (Inl e)"
| "map_result f (Some (Inr v)) = Some (Inr (f v))"

fun bind_result :: "'a result \<Rightarrow> ('a \<Rightarrow> 'b result) \<Rightarrow> 'b result" where
  "bind_result None f = None"
| "bind_result (Some (Inl e)) f = Some (Inl e)"
| "bind_result (Some (Inr v)) f = f v"

text \<open>One evaluation after another: what the second returns or throws, unless the first
  throws or does not end.\<close>

fun and_then :: "'a result \<Rightarrow> 'b result \<Rightarrow> 'b result" where
  "and_then None r = None"
| "and_then (Some (Inl e)) r = Some (Inl e)"
| "and_then (Some (Inr v)) r = r"

text \<open>\<open>Array.prototype.map\<close> with a callback that may throw: left to right, the first
  exception ends the loop.\<close>

fun mapM :: "('a \<Rightarrow> 'b result) \<Rightarrow> 'a list \<Rightarrow> 'b list result" where
  "mapM f [] = Some (Inr [])"
| "mapM f (x # xs) =
     bind_result (f x) (\<lambda>y. map_result (\<lambda>ys. y # ys) (mapM f xs))"

section \<open>The size estimator (accountSize, typeSize)\<close>

text \<open>
  The sizes are JavaScript numbers, that is IEEE 754 doubles. Every number that the
  estimator computes is an integer, \<open>Infinity\<close>, \<open>-Infinity\<close> or \<open>NaN\<close>: it starts from
  small integers and array lengths and only adds, multiplies and takes maxima.
  \<open>Num x\<close> is the double whose value is the integer \<open>x\<close>; the sign of zero is not
  modelled. A sum or a product is the exact result rounded to the nearest double, ties to
  the even significand (\<open>round_double\<close>): exact below \<open>2 ^ 53\<close> in absolute value, a
  multiple of \<open>2 ^ (e - 52)\<close> for a result between \<open>2 ^ e\<close> and \<open>2 ^ (e + 1)\<close>, and
  infinite from \<open>2 ^ 1024 - 2 ^ 970\<close>. \<open>Math.max()\<close> of no arguments is \<open>-Infinity\<close>.
\<close>

datatype jsnum = Num int | PosInfinity | NegInfinity | NaN

text \<open>The number of binary digits of a natural number.\<close>

fun bit_length :: "nat \<Rightarrow> nat" where
  "bit_length n = (if n = 0 then 0 else Suc (bit_length (n div 2)))"

declare bit_length.simps [simp del]

definition round_double :: "int \<Rightarrow> jsnum" where
  "round_double x =
     (let m = nat \<bar>x\<bar> in
      if m < 2 ^ 53 then Num x
      else
        let q = 2 ^ (bit_length m - 53);
            lo = m - m mod q;
            y = (if 2 * (m mod q) < q then lo
                 else if q < 2 * (m mod q) then lo + q
                 else if even (lo div q) then lo else lo + q)
        in if 2 ^ 1024 \<le> y then (if x < 0 then NegInfinity else PosInfinity)
           else Num (if x < 0 then - int y else int y))"

text \<open>\<open>a + b\<close>\<close>

fun js_add :: "jsnum \<Rightarrow> jsnum \<Rightarrow> jsnum" where
  "js_add NaN _ = NaN"
| "js_add _ NaN = NaN"
| "js_add (Num a) (Num b) = round_double (a + b)"
| "js_add PosInfinity NegInfinity = NaN"
| "js_add NegInfinity PosInfinity = NaN"
| "js_add PosInfinity _ = PosInfinity"
| "js_add _ PosInfinity = PosInfinity"
| "js_add NegInfinity _ = NegInfinity"
| "js_add _ NegInfinity = NegInfinity"

text \<open>\<open>a * b\<close>: an infinity times zero is \<open>NaN\<close>, otherwise the signs multiply.\<close>

fun js_sign :: "jsnum \<Rightarrow> int" where
  "js_sign (Num a) = sgn a"
| "js_sign PosInfinity = 1"
| "js_sign NegInfinity = - 1"
| "js_sign NaN = 0"

fun js_times :: "jsnum \<Rightarrow> jsnum \<Rightarrow> jsnum" where
  "js_times NaN _ = NaN"
| "js_times _ NaN = NaN"
| "js_times (Num a) (Num b) = round_double (a * b)"
| "js_times x y =
     (if js_sign x * js_sign y = 0 then NaN
      else if 0 < js_sign x * js_sign y then PosInfinity else NegInfinity)"

text \<open>
  \<open>typeSize(idl, arrayTy) * arraySize\<close>. The length of an \<open>Array\<close> is a JavaScript number
  too: the natural number \<open>n\<close> stands for the double nearest to it.
\<close>

definition js_mul :: "jsnum \<Rightarrow> nat \<Rightarrow> jsnum" where
  "js_mul s n = js_times s (round_double (int n))"

text \<open>The larger of two numbers, \<open>NaN\<close> when either is.\<close>

fun js_max :: "jsnum \<Rightarrow> jsnum \<Rightarrow> jsnum" where
  "js_max NaN _ = NaN"
| "js_max _ NaN = NaN"
| "js_max (Num a) (Num b) = Num (max a b)"
| "js_max PosInfinity _ = PosInfinity"
| "js_max _ PosInfinity = PosInfinity"
| "js_max NegInfinity b = b"
| "js_max a NegInfinity = a"

text \<open>\<open>Math.max(...xs)\<close>.\<close>

definition Math_max :: "jsnum list \<Rightarrow> jsnum" where
  "Math_max xs = foldl js_max NegInfinity xs"

text \<open>\<open>xs.reduce((a, b) => a + b)\<close>, which throws on an empty array, and
  \<open>xs.reduce((a, b) => a + b, 0)\<close>.\<close>

fun reduce_add :: "jsnum list \<Rightarrow> jsnum result" where
  "reduce_add [] = Some (Inl TypeError)"
| "reduce_add (x # xs) = Some (Inr (foldl js_add x xs))"

definition reduce_add_from :: "jsnum \<Rightarrow> jsnum list \<Rightarrow> jsnum" where
  "reduce_add_from z xs = foldl js_add z xs"

text \<open>\<open>idl.types?.filter((t) => t.name === d) ?? []\<close>\<close>

definition filtered_types :: "IdlTypeDef list option \<Rightarrow> string \<Rightarrow> IdlTypeDef list" where
  "filtered_types types d =
     (case types of None \<Rightarrow> [] | Some ts \<Rightarrow> filter (\<lambda>t. typedef_name t = d) ts)"

text \<open>
  The callback that \<open>accountSize\<close> maps over the variants of an enum; \<open>size_of\<close> stands
  for \<open>(ty) => typeSize(idl, ty)\<close>.
\<close>

definition enumFieldSize :: "(IdlType \<Rightarrow> jsnum result) \<Rightarrow> IdlEnumField \<Rightarrow> jsnum result" where
  "enumFieldSize size_of f =
     (case f of
        Tuple t \<Rightarrow> Some (Inl Error_TupleEnum)
      | Named fld \<Rightarrow> size_of (field_type fld))"

definition variantSize :: "(IdlType \<Rightarrow> jsnum result) \<Rightarrow> IdlEnumVariant \<Rightarrow> jsnum result" where
  "variantSize size_of variant =
     (case variant_fields variant of
        None \<Rightarrow> Some (Inr (Num 0))
      | Some flds \<Rightarrow> bind_result (mapM (enumFieldSize size_of) flds) reduce_add)"

fun typeSize :: "nat \<Rightarrow> Idl \<Rightarrow> IdlType \<Rightarrow> jsnum result"
and accountSize :: "nat \<Rightarrow> Idl \<Rightarrow> IdlTypeDef \<Rightarrow> jsnum result" where
  "typeSize 0 idl ty = None"
| "typeSize (Suc n) idl ty =
     (case ty of
        Bool \<Rightarrow> Some (Inr (Num 1))
      | U8 \<Rightarrow> Some (Inr (Num 1))
      | I8 \<Rightarrow> Some (Inr (Num 1))
      | I16 \<Rightarrow> Some (Inr (Num 2))
      | U16 \<Rightarrow> Some (Inr (Num 2))
      | U32 \<Rightarrow> Some (Inr (Num 4))
      | I32 \<Rightarrow> Some (Inr (Num 4))
      | U64 \<Rightarrow> Some (Inr (Num 8))
      | I64 \<Rightarrow> Some (Inr (Num 8))
      | U128 \<Rightarrow> Some (Inr (Num 16))
      | I128 \<Rightarrow> Some (Inr (Num 16))
      | Bytes \<Rightarrow> Some (Inr (Num 1))
      | String \<Rightarrow> Some (Inr (Num 1))
      | PublicKey \<Rightarrow> Some (Inr (Num 32))
      | Vec t \<Rightarrow> Some (Inr (Num 1))
      | Option t \<Rightarrow> map_result (\<lambda>s. js_add (Num 1) s) (typeSize n idl t)
      | Defined d \<Rightarrow>
          (let filtered = filtered_types (idl_types idl) d in
           if length filtered \<noteq> 1 then Some (Inl (IdlError_TypeNotFound d))
           else accountSize n idl (hd filtered))
      | Array arrayTy arraySize \<Rightarrow>
          map_result (\<lambda>s. js_mul s arraySize) (typeSize n idl arrayTy))"
| "accountSize 0 idl idlAccount = None"
| "accountSize (Suc n) idl idlAccount =
     (case typedef_type idlAccount of
        Enum variants \<Rightarrow>
          map_result (\<lambda>variantSizes. js_add (Math_max variantSizes) (Num 1))
            (mapM (variantSize (\<lambda>ty. typeSize n idl ty)) variants)
      | Struct None \<Rightarrow> Some (Inr (Num 0))
      | Struct (Some flds) \<Rightarrow>
          map_result (reduce_add_from (Num 0))
            (mapM (\<lambda>f. typeSize n idl (field_type f)) flds))"

section \<open>The layout compiler (IdlCoder)\<close>

text \<open>
  A layout is built by calls into the borsh layout library, which is not part of this
  repository. The datatype records which constructor of that library was called, with which
  child layouts and which property name (\<open>None\<close> for \<open>undefined\<close>).
\<close>

type_synonym property = "string option"

datatype Layout =
    borsh_bool property
  | borsh_u8 property
  | borsh_i8 property
  | borsh_u16 property
  | borsh_i16 property
  | borsh_u32 property
  | borsh_i32 property
  | borsh_u64 property
  | borsh_i64 property
  | borsh_u128 property
  | borsh_i128 property
  | borsh_vecU8 property
  | borsh_str property
  | borsh_publicKey property
  | borsh_vec Layout property
  | borsh_option Layout property
  | borsh_array Layout nat property
  | borsh_struct "Layout list" property
  | borsh_rustEnum "Layout list" property

text \<open>\<open>layout.replicate(name)\<close>: the same layout under another property name.\<close>

fun replicate_layout :: "Layout \<Rightarrow> string \<Rightarrow> Layout" where
  "replicate_layout (borsh_bool p) nm = borsh_bool (Some nm)"
| "replicate_layout (borsh_u8 p) nm = borsh_u8 (Some nm)"
| "replicate_layout (borsh_i8 p) nm = borsh_i8 (Some nm)"
| "replicate_layout (borsh_u16 p) nm = borsh_u16 (Some nm)"
| "replicate_layout (borsh_i16 p) nm = borsh_i16 (Some nm)"
| "replicate_layout (borsh_u32 p) nm = borsh_u32 (Some nm)"
| "replicate_layout (borsh_i32 p) nm = borsh_i32 (Some nm)"
| "replicate_layout (borsh_u64 p) nm = borsh_u64 (Some nm)"
| "replicate_layout (borsh_i64 p) nm = borsh_i64 (Some nm)"
| "replicate_layout (borsh_u128 p) nm = borsh_u128 (Some nm)"
| "replicate_layout (borsh_i128 p) nm = borsh_i128 (Some nm)"
| "replicate_layout (borsh_vecU8 p) nm = borsh_vecU8 (Some nm)"
| "replicate_layout (borsh_str p) nm = borsh_str (Some nm)"
| "replicate_layout (borsh_publicKey p) nm = borsh_publicKey (Some nm)"
| "replicate_layout (borsh_vec l p) nm = borsh_vec l (Some nm)"
| "replicate_layout (borsh_option l p) nm = borsh_option l (Some nm)"
| "replicate_layout (borsh_array l k p) nm = borsh_array l k (Some nm)"
| "replicate_layout (borsh_struct ls p) nm = borsh_struct ls (Some nm)"
| "replicate_layout (borsh_rustEnum ls p) nm = borsh_rustEnum ls (Some nm)"

text \<open>\<open>layout.property\<close>: the property name of a layout.\<close>

fun layout_property :: "Layout \<Rightarrow> property" where
  "layout_property (borsh_bool p) = p"
| "layout_property (borsh_u8 p) = p"
| "layout_property (borsh_i8 p) = p"
| "layout_property (borsh_u16 p) = p"
| "layout_property (borsh_i16 p) = p"
| "layout_property (borsh_u32 p) = p"
| "layout_property (borsh_i32 p) = p"
| "layout_property (borsh_u64 p) = p"
| "layout_property (borsh_i64 p) = p"
| "layout_property (borsh_u128 p) = p"
| "layout_property (borsh_i128 p) = p"
| "layout_property (borsh_vecU8 p) = p"
| "layout_property (borsh_str p) = p"
| "layout_property (borsh_publicKey p) = p"
| "layout_property (borsh_vec l p) = p"
| "layout_property (borsh_option l p) = p"
| "layout_property (borsh_array l k p) = p"
| "layout_property (borsh_struct ls p) = p"
| "layout_property (borsh_rustEnum ls p) = p"

text \<open>
  The type tag read from the property \<open>k\<close> of a type tag that is an object.
  \<open>{Option: t}\<close> has the one key \<open>Option\<close> and \<open>{Vec: t}\<close> the one key \<open>Vec\<close>, and
  keys are case sensitive; reading a key that the object does not have gives \<open>undefined\<close>
  (\<open>None\<close>). The keys \<open>Defined\<close> and \<open>Array\<close> hold a name and a pair, no type tag, and
  are matched directly in the functions below.
\<close>

fun type_property :: "IdlType \<Rightarrow> string \<Rightarrow> IdlType option" where
  "type_property (Option t) k = (if k = ''Option'' then Some t else None)"
| "type_property (Vec t) k = (if k = ''Vec'' then Some t else None)"
| "type_property _ k = None"

text \<open>
  \<open>fieldLayout(field, types)\<close> reads \<open>field.name\<close> and \<open>field.type\<close>; they are the
  arguments \<open>name\<close> and \<open>ty\<close>, either of which may be \<open>undefined\<close>. With \<open>ty\<close> undefined
  no \<open>case\<close> of the \<open>switch\<close> matches and the test \<open>"Vec" in field.type\<close> of the default
  branch throws a TypeError. \<open>camelCase\<close> is the function of that name of the npm package
  \<open>camelcase\<close>, taken as a parameter. \<open>typeDefLayout(typeDef, types, name)\<close> replaces an
  undefined \<open>types\<close> by the empty list; for a struct it calls \<open>map\<close> on the fields
  without the test for \<open>undefined\<close> that \<open>accountSize\<close> makes, a TypeError when they are
  undefined.
\<close>

definition enumFieldLayout ::
  "(string option \<Rightarrow> IdlType option \<Rightarrow> Layout result) \<Rightarrow> IdlEnumField \<Rightarrow> Layout result" where
  "enumFieldLayout layout_of f =
     (case f of
        Tuple t \<Rightarrow> Some (Inl Error_TupleEnum)
      | Named fld \<Rightarrow> layout_of (Some (field_name fld)) (Some (field_type fld)))"

definition variantLayout ::
  "(string \<Rightarrow> string) \<Rightarrow> (string option \<Rightarrow> IdlType option \<Rightarrow> Layout result) \<Rightarrow>
   IdlEnumVariant \<Rightarrow> Layout result" where
  "variantLayout camelCase layout_of variant =
     (let name = camelCase (variant_name variant) in
      case variant_fields variant of
        None \<Rightarrow> Some (Inr (borsh_struct [] (Some name)))
      | Some flds \<Rightarrow>
          map_result (\<lambda>fieldLayouts. borsh_struct fieldLayouts (Some name))
            (mapM (enumFieldLayout layout_of) flds))"

text \<open>The default value \<open>types = []\<close> of the parameter of \<open>typeDefLayout\<close>.\<close>

definition types_or_empty :: "IdlTypeDef list option \<Rightarrow> IdlTypeDef list option" where
  "types_or_empty types = Some (case types of None \<Rightarrow> [] | Some ts \<Rightarrow> ts)"

fun fieldLayout ::
  "nat \<Rightarrow> (string \<Rightarrow> string) \<Rightarrow> string option \<Rightarrow> IdlType option \<Rightarrow>
   IdlTypeDef list option \<Rightarrow> Layout result"
and typeDefLayout ::
  "nat \<Rightarrow> (string \<Rightarrow> string) \<Rightarrow> IdlTypeDef \<Rightarrow> IdlTypeDef list option \<Rightarrow>
   string option \<Rightarrow> Layout result" where
  "fieldLayout 0 camelCase name ty types = None"
| "fieldLayout (Suc n) camelCase name ty types =
     (let fieldName = map_option camelCase name in
      case ty of
        None \<Rightarrow> Some (Inl TypeError)
      | Some Bool \<Rightarrow> Some (Inr (borsh_bool fieldName))
      | Some U8 \<Rightarrow> Some (Inr (borsh_u8 fieldName))
      | Some I8 \<Rightarrow> Some (Inr (borsh_i8 fieldName))
      | Some U16 \<Rightarrow> Some (Inr (borsh_u16 fieldName))
      | Some I16 \<Rightarrow> Some (Inr (borsh_i16 fieldName))
      | Some U32 \<Rightarrow> Some (Inr (borsh_u32 fieldName))
      | Some I32 \<Rightarrow> Some (Inr (borsh_i32 fieldName))
      | Some U64 \<Rightarrow> Some (Inr (borsh_u64 fieldName))
      | Some I64 \<Rightarrow> Some (Inr (borsh_i64 fieldName))
      | Some U128 \<Rightarrow> Some (Inr (borsh_u128 fieldName))
      | Some I128 \<Rightarrow> Some (Inr (borsh_i128 fieldName))
      | Some Bytes \<Rightarrow> Some (Inr (borsh_vecU8 fieldName))
      | Some String \<Rightarrow> Some (Inr (borsh_str fieldName))
      | Some PublicKey \<Rightarrow> Some (Inr (borsh_publicKey fieldName))
      | Some (Vec t) \<Rightarrow>
          map_result (\<lambda>inner. borsh_vec inner fieldName)
            (fieldLayout n camelCase None (type_property (Vec t) ''vec'') types)
      | Some (Option t) \<Rightarrow>
          map_result (\<lambda>inner. borsh_option inner fieldName)
            (fieldLayout n camelCase None (type_property (Option t) ''Option'') types)
      | Some (Defined defined) \<Rightarrow>
          (case types of
             None \<Rightarrow> Some (Inl IdlError_TypesNotProvided)
           | Some ts \<Rightarrow>
               (let filtered = filter (\<lambda>t. typedef_name t = defined) ts in
                if length filtered \<noteq> 1 then Some (Inl (IdlError_TypeNotFound defined))
                else typeDefLayout n camelCase (hd filtered) types fieldName))
      | Some (Array arrayTy arrayLen) \<Rightarrow>
          map_result (\<lambda>innerLayout. borsh_array innerLayout arrayLen fieldName)
            (fieldLayout n camelCase None (Some arrayTy) types))"
| "typeDefLayout 0 camelCase typeDef types name = None"
| "typeDefLayout (Suc n) camelCase typeDef types name =
     (let types = types_or_empty types in
      case typedef_type typeDef of
        Struct None \<Rightarrow> Some (Inl TypeError)
      | Struct (Some flds) \<Rightarrow>
          map_result (\<lambda>fieldLayouts. borsh_struct fieldLayouts name)
            (mapM (\<lambda>field. fieldLayout n camelCase (Some (field_name field))
                      (Some (field_type field)) types) flds)
      | Enum vs \<Rightarrow>
          map_result
            (\<lambda>variants. case name of
                Some nm \<Rightarrow> replicate_layout (borsh_rustEnum variants None) nm
              | None \<Rightarrow> borsh_rustEnum variants name)
            (mapM (variantLayout camelCase
                     (\<lambda>fname fty. fieldLayout n camelCase fname fty types)) vs))"

section \<open>The layout compiler as the spec describes it\<close>

text \<open>
  \<open>compileField\<close> of the spec (section 4.3) on a type without references to defined
  types: a leaf layout for a primitive tag, and the vec, option and array layouts over the
  compiled inner type, which has no property name. \<open>p\<close> is the property name of the
  field, already in camel case. A reference to a defined type is resolved against the
  type definitions and is not covered here (\<open>None\<close>). It is the definition that the
  source function \<open>fieldLayout\<close> is compared with.
\<close>

fun compileField_spec :: "property \<Rightarrow> IdlType \<Rightarrow> Layout option" where
  "compileField_spec p Bool = Some (borsh_bool p)"
| "compileField_spec p U8 = Some (borsh_u8 p)"
| "compileField_spec p I8 = Some (borsh_i8 p)"
| "compileField_spec p U16 = Some (borsh_u16 p)"
| "compileField_spec p I16 = Some (borsh_i16 p)"
| "compileField_spec p U32 = Some (borsh_u32 p)"
| "compileField_spec p I32 = Some (borsh_i32 p)"
| "compileField_spec p U64 = Some (borsh_u64 p)"
| "compileField_spec p I64 = Some (borsh_i64 p)"
| "compileField_spec p U128 = Some (borsh_u128 p)"
| "compileField_spec p I128 = Some (borsh_i128 p)"
| "compileField_spec p Bytes = Some (borsh_vecU8 p)"
| "compileField_spec p String = Some (borsh_str p)"
| "compileField_spec p PublicKey = Some (borsh_publicKey p)"
| "compileField_spec p (Defined d) = None"
| "compileField_spec p (Option t) =
     map_option (\<lambda>l. borsh_option l p) (compileField_spec None t)"
| "compileField_spec p (Vec t) =
     map_option (\<lambda>l. borsh_vec l p) (compileField_spec None t)"
| "compileField_spec p (Array t k) =
     map_option (\<lambda>l. borsh_array l k p) (compileField_spec None t)"

text \<open>
  The variant of an enum as the spec describes it: the struct of its named fields in
  declared order under the camel-cased name of the variant, the empty struct when the
  variant has no \<open>fields\<close>; nothing for a tuple-style field.
\<close>

fun compileEnumField_spec :: "(string \<Rightarrow> string) \<Rightarrow> IdlEnumField \<Rightarrow> Layout option" where
  "compileEnumField_spec camelCase (Named fld) =
     compileField_spec (Some (camelCase (field_name fld))) (field_type fld)"
| "compileEnumField_spec camelCase (Tuple t) = None"

definition compileVariant_spec :: "(string \<Rightarrow> string) \<Rightarrow> IdlEnumVariant \<Rightarrow> Layout option" where
  "compileVariant_spec camelCase v =
     (case variant_fields v of
        None \<Rightarrow> Some (borsh_struct [] (Some (camelCase (variant_name v))))
      | Some flds \<Rightarrow>
          map_option (\<lambda>fls. borsh_struct fls (Some (camelCase (variant_name v))))
            (those (map (compileEnumField_spec camelCase) flds)))"

text \<open>
  The types on which the source function is shown to agree with the spec: those built
  from primitive tags, Option and Array. \<open>depth\<close> counts the nested composite forms, one
  unit of fuel each. A variant is plain for the fuel \<open>n\<close> when it has no \<open>fields\<close> or only
  named fields of plain types of depth below \<open>n\<close>.
\<close>

fun plain :: "IdlType \<Rightarrow> bool" where
  "plain (Defined d) = False"
| "plain (Vec t) = False"
| "plain (Option t) = plain t"
| "plain (Array t k) = plain t"
| "plain _ = True"

fun depth :: "IdlType \<Rightarrow> nat" where
  "depth (Option t) = Suc (depth t)"
| "depth (Vec t) = Suc (depth t)"
| "depth (Array t k) = Suc (depth t)"
| "depth _ = 0"

fun plain_field :: "nat \<Rightarrow> IdlEnumField \<Rightarrow> bool" where
  "plain_field n (Named fld) = (plain (field_type fld) \<and> depth (field_type fld) < n)"
| "plain_field n (Tuple t) = False"

definition plain_variant :: "nat \<Rightarrow> IdlEnumVariant \<Rightarrow> bool" where
  "plain_variant n v =
     (case variant_fields v of None \<Rightarrow> True | Some flds \<Rightarrow> list_all (plain_field n) flds)"

text \<open>
  An instance of the parameter \<open>camelCase\<close> for closed examples: what the npm package
  \<open>camelcase\<close> returns for a name made of ASCII letters and the separators
  \<open>_ . -\<close> and space, without digits and without two capital letters in a row. A
  separator is put before a capital letter that follows a small letter, all letters are
  made small, and every run of separators is removed, the letter after it made capital,
  except at the start.
\<close>

definition upper_letters :: string where
  "upper_letters = ''ABCDEFGHIJKLMNOPQRSTUVWXYZ''"

definition lower_letters :: string where
  "lower_letters = ''abcdefghijklmnopqrstuvwxyz''"

definition is_upper :: "char \<Rightarrow> bool" where
  "is_upper c = (c \<in> set upper_letters)"

definition is_lower :: "char \<Rightarrow> bool" where
  "is_lower c = (c \<in> set lower_letters)"

definition to_lower :: "char \<Rightarrow> char" where
  "to_lower c = (case map_of (zip upper_letters lower_letters) c of None \<Rightarrow> c | Some d \<Rightarrow> d)"

definition to_upper :: "char \<Rightarrow> char" where
  "to_upper c = (case map_of (zip lower_letters upper_letters) c of None \<Rightarrow> c | Some d \<Rightarrow> d)"

definition is_separator :: "char \<Rightarrow> bool" where
  "is_separator c = (c \<in> set ''_.- '')"

fun preserveCamelCase :: "string \<Rightarrow> string" where
  "preserveCamelCase (a # b # cs) =
     (if is_lower a \<and> is_upper b then a # CHR ''-'' # preserveCamelCase (b # cs)
      else a # preserveCamelCase (b # cs))"
| "preserveCamelCase cs = cs"

fun postProcess :: "bool \<Rightarrow> string \<Rightarrow> string" where
  "postProcess up [] = []"
| "postProcess up (c # cs) =
     (if is_separator c then postProcess True cs
      else (if up then to_upper c else c) # postProcess False cs)"

definition camelCase_model :: "string \<Rightarrow> string" where
  "camelCase_model input =
     postProcess False (map to_lower (dropWhile is_separator (preserveCamelCase input)))"

section \<open>What a layout encodes and decodes\<close>

text \<open>
  Modelled from the spec: the values and the encoders of the borsh layout library, package
  \<open>@project-serum/borsh\<close>, which the repository imports and does not contain. The spec
  (sections 4.3 and 6) gives the format: integers are little-endian in their stated width,
  signed ones in two's complement; Bytes and String are a 4-byte little-endian length
  followed by the bytes; a public key is its 32 bytes; a vec is a 4-byte little-endian
  count followed by its elements; an option is a presence byte (0 or 1) followed, when
  present, by the inner value; an array of length \<open>n\<close> is its \<open>n\<close> elements with no prefix;
  a struct is its fields in order; an enum is one byte holding the zero-based index of the
  variant followed by the variant's struct. A value that does not fit its layout is an
  error. The property names label the fields of the decoded object and do not change
  the bytes.

  The values that a layout encodes are booleans, integers (plain numbers and big numbers
  alike), byte buffers, strings (as their UTF-8 bytes), public keys (32 bytes), \<open>null\<close> or a
  value for an option, the elements of a vec or an array, the field values of a struct in
  the order of its fields, and for an enum the object \<open>{name: fields}\<close>: the property name
  of the active variant with the value of that variant's struct. The library finds the
  variant of an enum value by that name: it takes the first variant layout, in the order
  of the list, whose property name the object has, and writes the index of that layout.
\<close>

type_synonym byte = "8 word"

datatype Value =
    VBool bool
  | VInt int
  | VBytes "byte list"
  | VStr string
  | VKey "byte list"
  | VOption "Value option"
  | VList "Value list"
  | VStruct "Value list"
  | VEnum string Value

text \<open>Modelled from the spec: the \<open>k\<close> little-endian bytes of a natural number, and back;
  the encoders of the integers, of a length-prefixed blob and of a string.\<close>

fun le_bytes :: "nat \<Rightarrow> nat \<Rightarrow> byte list" where
  "le_bytes 0 v = []"
| "le_bytes (Suc k) v = of_nat (v mod 256) # le_bytes k (v div 256)"

fun le_nat :: "byte list \<Rightarrow> nat" where
  "le_nat [] = 0"
| "le_nat (b # bs) = unat b + 256 * le_nat bs"

definition encode_uint :: "nat \<Rightarrow> int \<Rightarrow> error + byte list" where
  "encode_uint k i =
     (if 0 \<le> i \<and> i < 2 ^ (8 * k) then Inr (le_bytes k (nat i)) else Inl RangeError)"

definition encode_sint :: "nat \<Rightarrow> int \<Rightarrow> error + byte list" where
  "encode_sint k i =
     (if - (2 ^ (8 * k - 1)) \<le> i \<and> i < 2 ^ (8 * k - 1)
      then Inr (le_bytes k (nat (i mod 2 ^ (8 * k)))) else Inl RangeError)"

definition encode_blob :: "byte list \<Rightarrow> error + byte list" where
  "encode_blob bs =
     (if length bs < 2 ^ 32 then Inr (le_bytes 4 (length bs) @ bs) else Inl RangeError)"

definition string_bytes :: "string \<Rightarrow> byte list" where
  "string_bytes s = map (\<lambda>c. of_nat (of_char c)) s"

definition append_bytes :: "error + byte list \<Rightarrow> error + byte list \<Rightarrow> error + byte list" where
  "append_bytes a b =
     (case a of Inl e \<Rightarrow> Inl e
      | Inr xs \<Rightarrow> (case b of Inl e \<Rightarrow> Inl e | Inr ys \<Rightarrow> Inr (xs @ ys)))"

text \<open>
  Modelled from the spec: the encoder of each layout, in the format described above;
  \<open>encode_seq\<close> encodes the elements of a vec or an array, \<open>encode_fields\<close> the fields of a
  struct, \<open>encode_variant\<close> looks for the first variant layout with the given property
  name, counting from the given index, and encodes the index and the variant's struct.
\<close>

fun encode :: "Layout \<Rightarrow> Value \<Rightarrow> error + byte list"
and encode_seq :: "Layout \<Rightarrow> Value list \<Rightarrow> error + byte list"
and encode_fields :: "Layout list \<Rightarrow> Value list \<Rightarrow> error + byte list"
and encode_variant :: "Layout list \<Rightarrow> nat \<Rightarrow> string \<Rightarrow> Value \<Rightarrow> error + byte list" where
  "encode (borsh_bool p) v =
     (case v of VBool b \<Rightarrow> Inr [if b then 1 else 0] | _ \<Rightarrow> Inl TypeError)"
| "encode (borsh_u8 p) v = (case v of VInt i \<Rightarrow> encode_uint 1 i | _ \<Rightarrow> Inl TypeError)"
| "encode (borsh_i8 p) v = (case v of VInt i \<Rightarrow> encode_sint 1 i | _ \<Rightarrow> Inl TypeError)"
| "encode (borsh_u16 p) v = (case v of VInt i \<Rightarrow> encode_uint 2 i | _ \<Rightarrow> Inl TypeError)"
| "encode (borsh_i16 p) v = (case v of VInt i \<Rightarrow> encode_sint 2 i | _ \<Rightarrow> Inl TypeError)"
| "encode (borsh_u32 p) v = (case v of VInt i \<Rightarrow> encode_uint 4 i | _ \<Rightarrow> Inl TypeError)"
| "encode (borsh_i32 p) v = (case v of VInt i \<Rightarrow> encode_sint 4 i | _ \<Rightarrow> Inl TypeError)"
| "encode (borsh_u64 p) v = (case v of VInt i \<Rightarrow> encode_uint 8 i | _ \<Rightarrow> Inl TypeError)"
| "encode (borsh_i64 p) v = (case v of VInt i \<Rightarrow> encode_sint 8 i | _ \<Rightarrow> Inl TypeError)"
| "encode (borsh_u128 p) v = (case v of VInt i \<Rightarrow> encode_uint 16 i | _ \<Rightarrow> Inl TypeError)"
| "encode (borsh_i128 p) v = (case v of VInt i \<Rightarrow> encode_sint 16 i | _ \<Rightarrow> Inl TypeError)"
| "encode (borsh_vecU8 p) v = (case v of VBytes bs \<Rightarrow> encode_blob bs | _ \<Rightarrow> Inl TypeError)"
| "encode (borsh_str p) v =
     (case v of VStr s \<Rightarrow> encode_blob (string_bytes s) | _ \<Rightarrow> Inl TypeError)"
| "encode (borsh_publicKey p) v =
     (case v of VKey k \<Rightarrow> (if length k = 32 then Inr k else Inl TypeError)
      | _ \<Rightarrow> Inl TypeError)"
| "encode (borsh_vec l p) v =
     (case v of
        VList vs \<Rightarrow>
          (if length vs < 2 ^ 32
           then append_bytes (Inr (le_bytes 4 (length vs))) (encode_seq l vs)
           else Inl RangeError)
      | _ \<Rightarrow> Inl TypeError)"
| "encode (borsh_option l p) v =
     (case v of
        VOption None \<Rightarrow> Inr [0]
      | VOption (Some x) \<Rightarrow> append_bytes (Inr [1]) (encode l x)
      | _ \<Rightarrow> Inl TypeError)"
| "encode (borsh_array l n p) v =
     (case v of
        VList vs \<Rightarrow> (if length vs = n then encode_seq l vs else Inl TypeError)
      | _ \<Rightarrow> Inl TypeError)"
| "encode (borsh_struct ls p) v =
     (case v of VStruct vs \<Rightarrow> encode_fields ls vs | _ \<Rightarrow> Inl TypeError)"
| "encode (borsh_rustEnum ls p) v =
     (case v of VEnum nm x \<Rightarrow> encode_variant ls 0 nm x | _ \<Rightarrow> Inl TypeError)"
| "encode_seq l [] = Inr []"
| "encode_seq l (v # vs) = append_bytes (encode l v) (encode_seq l vs)"
| "encode_fields [] vs = (case vs of [] \<Rightarrow> Inr [] | _ \<Rightarrow> Inl TypeError)"
| "encode_fields (l # ls) vs =
     (case vs of [] \<Rightarrow> Inl TypeError
      | v # vs' \<Rightarrow> append_bytes (encode l v) (encode_fields ls vs'))"
| "encode_variant [] i nm x = Inl TypeError"
| "encode_variant (l # ls) i nm x =
     (if layout_property l = Some nm
      then (if i < 256 then append_bytes (Inr [of_nat i]) (encode l x) else Inl RangeError)
      else encode_variant ls (Suc i) nm x)"

definition decode_uint :: "nat \<Rightarrow> byte list \<Rightarrow> error + (Value \<times> byte list)" where
  "decode_uint k bs =
     (if length bs < k then Inl RangeError
      else Inr (VInt (int (le_nat (take k bs))), drop k bs))"

definition decode_sint :: "nat \<Rightarrow> byte list \<Rightarrow> error + (Value \<times> byte list)" where
  "decode_sint k bs =
     (if length bs < k then Inl RangeError
      else let v = int (le_nat (take k bs)) in
        Inr (VInt (if v < 2 ^ (8 * k - 1) then v else v - 2 ^ (8 * k)), drop k bs))"

text \<open>A 4-byte little-endian length, then that many bytes.\<close>

definition decode_blob :: "byte list \<Rightarrow> error + (byte list \<times> byte list)" where
  "decode_blob bs =
     (if length bs < 4 then Inl RangeError
      else let n = le_nat (take 4 bs); rest = drop 4 bs in
        if length rest < n then Inl RangeError else Inr (take n rest, drop n rest))"

definition bytes_string :: "byte list \<Rightarrow> string" where
  "bytes_string bs = map (\<lambda>b. char_of (unat b)) bs"

text \<open>
  Modelled from the spec: the decoders of the same library. Each reads the format above
  from the front of the bytes and returns the value with the bytes that follow it; bytes
  that end before the value does are an error (section 4.4: a buffer shorter than the
  declared payload length is rejected).
\<close>

fun decode :: "Layout \<Rightarrow> byte list \<Rightarrow> error + (Value \<times> byte list)"
and decode_seq :: "Layout \<Rightarrow> nat \<Rightarrow> byte list \<Rightarrow> error + (Value list \<times> byte list)"
and decode_fields :: "Layout list \<Rightarrow> byte list \<Rightarrow> error + (Value list \<times> byte list)"
and decode_variant :: "Layout list \<Rightarrow> nat \<Rightarrow> byte list \<Rightarrow> error + (Value \<times> byte list)" where
  "decode (borsh_bool p) bs =
     (case bs of
        [] \<Rightarrow> Inl RangeError
      | b # rest \<Rightarrow>
          (if b = 0 then Inr (VBool False, rest)
           else if b = 1 then Inr (VBool True, rest) else Inl TypeError))"
| "decode (borsh_u8 p) bs = decode_uint 1 bs"
| "decode (borsh_i8 p) bs = decode_sint 1 bs"
| "decode (borsh_u16 p) bs = decode_uint 2 bs"
| "decode (borsh_i16 p) bs = decode_sint 2 bs"
| "decode (borsh_u32 p) bs = decode_uint 4 bs"
| "decode (borsh_i32 p) bs = decode_sint 4 bs"
| "decode (borsh_u64 p) bs = decode_uint 8 bs"
| "decode (borsh_i64 p) bs = decode_sint 8 bs"
| "decode (borsh_u128 p) bs = decode_uint 16 bs"
| "decode (borsh_i128 p) bs = decode_sint 16 bs"
| "decode (borsh_vecU8 p) bs =
     (case decode_blob bs of Inl e \<Rightarrow> Inl e | Inr (xs, rest) \<Rightarrow> Inr (VBytes xs, rest))"
| "decode (borsh_str p) bs =
     (case decode_blob bs of
        Inl e \<Rightarrow> Inl e
      | Inr (xs, rest) \<Rightarrow> Inr (VStr (bytes_string xs), rest))"
| "decode (borsh_publicKey p) bs =
     (if length bs < 32 then Inl RangeError else Inr (VKey (take 32 bs), drop 32 bs))"
| "decode (borsh_vec l p) bs =
     (if length bs < 4 then Inl RangeError
      else case decode_seq l (le_nat (take 4 bs)) (drop 4 bs) of
             Inl e \<Rightarrow> Inl e
           | Inr (vs, rest) \<Rightarrow> Inr (VList vs, rest))"
| "decode (borsh_option l p) bs =
     (case bs of
        [] \<Rightarrow> Inl RangeError
      | b # rest \<Rightarrow>
          (if b = 0 then Inr (VOption None, rest)
           else if b = 1 then
             (case decode l rest of
                Inl e \<Rightarrow> Inl e
              | Inr (x, rest') \<Rightarrow> Inr (VOption (Some x), rest'))
           else Inl TypeError))"
| "decode (borsh_array l n p) bs =
     (case decode_seq l n bs of Inl e \<Rightarrow> Inl e | Inr (vs, rest) \<Rightarrow> Inr (VList vs, rest))"
| "decode (borsh_struct ls p) bs =
     (case decode_fields ls bs of Inl e \<Rightarrow> Inl e | Inr (vs, rest) \<Rightarrow> Inr (VStruct vs, rest))"
| "decode (borsh_rustEnum ls p) bs =
     (case bs of [] \<Rightarrow> Inl RangeError | b # rest \<Rightarrow> decode_variant ls (unat b) rest)"
| "decode_seq l 0 bs = Inr ([], bs)"
| "decode_seq l (Suc n) bs =
     (case decode l bs of
        Inl e \<Rightarrow> Inl e
      | Inr (v, rest) \<Rightarrow>
          (case decode_seq l n rest of
             Inl e \<Rightarrow> Inl e
           | Inr (vs, rest') \<Rightarrow> Inr (v # vs, rest')))"
| "decode_fields [] bs = Inr ([], bs)"
| "decode_fields (l # ls) bs =
     (case decode l bs of
        Inl e \<Rightarrow> Inl e
      | Inr (v, rest) \<Rightarrow>
          (case decode_fields ls rest of
             Inl e \<Rightarrow> Inl e
           | Inr (vs, rest') \<Rightarrow> Inr (v # vs, rest')))"
| "decode_variant [] i bs = Inl TypeError"
| "decode_variant (l # ls) i bs =
     (case i of
        0 \<Rightarrow>
          (case layout_property l of
             None \<Rightarrow> Inl TypeError
           | Some nm \<Rightarrow>
               (case decode l bs of
                  Inl e \<Rightarrow> Inl e
                | Inr (x, rest) \<Rightarrow> Inr (VEnum nm x, rest)))
      | Suc j \<Rightarrow> decode_variant ls j bs)"

section \<open>The on-chain account of the IDL (idl.ts)\<close>

text \<open>
  \<open>authority\<close> is a \<open>PublicKey\<close>, whose buffer always has 32 bytes; \<open>data\<close> is a
  \<open>Buffer\<close>.
\<close>

record IdlProgramAccount =
  authority :: "byte list"
  data :: "byte list"

definition IDL_ACCOUNT_LAYOUT :: Layout where
  "IDL_ACCOUNT_LAYOUT =
     borsh_struct [borsh_publicKey (Some ''authority''), borsh_vecU8 (Some ''data'')] None"

definition account_value :: "IdlProgramAccount \<Rightarrow> Value" where
  "account_value acc = VStruct [VKey (authority acc), VBytes (data acc)]"

text \<open>
  Modelled from the spec: \<open>layout.encode(src, b)\<close> of the same library writes the encoding
  of \<open>src\<close> at the start of the buffer \<open>b\<close> and returns its length in bytes; the spec
  leaves the size of the destination to the caller, and the library raises a RangeError
  when the encoding does not fit the buffer.
\<close>

definition layout_encode :: "Layout \<Rightarrow> Value \<Rightarrow> byte list \<Rightarrow> error + (byte list \<times> nat)" where
  "layout_encode l src b =
     (case encode l src of
        Inl e \<Rightarrow> Inl e
      | Inr bs \<Rightarrow>
          (if length bs > length b then Inl RangeError
           else Inr (bs @ drop (length bs) b, length bs)))"

definition decodeIdlAccount :: "byte list \<Rightarrow> error + IdlProgramAccount" where
  "decodeIdlAccount bs =
     (case decode IDL_ACCOUNT_LAYOUT bs of
        Inr (VStruct [VKey a, VBytes d], rest) \<Rightarrow> Inr \<lparr>authority = a, data = d\<rparr>
      | Inr _ \<Rightarrow> Inl TypeError
      | Inl e \<Rightarrow> Inl e)"

definition encodeIdlAccount :: "IdlProgramAccount \<Rightarrow> error + byte list" where
  "encodeIdlAccount acc =
     (let buffer = replicate 1000 (0 :: byte) in
      case layout_encode IDL_ACCOUNT_LAYOUT (account_value acc) buffer of
        Inl e \<Rightarrow> Inl e
      | Inr (buffer', len) \<Rightarrow> Inr (take len buffer'))"

section \<open>The instruction discriminator (sighash)\<close>

text \<open>
  Modelled from the spec: SHA-256, which the spec names as the digest of the discriminator
  (section 4.2); the code calls \<open>sha256.digest\<close> of the package \<open>js-sha256\<close>, which
  the repository imports and does not contain. This is the function of FIPS 180-4 on a
  message of whole bytes: 32-bit words are integers below \<open>2 ^ 32\<close>, a block is 64 bytes,
  the message is padded with the byte 128, zero bytes and its length in bits as 8 bytes,
  and the digest is the final state as 32 big-endian bytes.
\<close>

definition add32 :: "int \<Rightarrow> int \<Rightarrow> int" where
  "add32 x y = (x + y) mod 4294967296"

definition rotr :: "nat \<Rightarrow> int \<Rightarrow> int" where
  "rotr n x = x div 2 ^ n + (x mod 2 ^ n) * 2 ^ (32 - n)"

definition shr :: "nat \<Rightarrow> int \<Rightarrow> int" where
  "shr n x = x div 2 ^ n"

definition Ch :: "int \<Rightarrow> int \<Rightarrow> int \<Rightarrow> int" where
  "Ch x y z = (x AND y) XOR ((4294967295 - x) AND z)"

definition Maj :: "int \<Rightarrow> int \<Rightarrow> int \<Rightarrow> int" where
  "Maj x y z = (x AND y) XOR (x AND z) XOR (y AND z)"

definition Sigma0 :: "int \<Rightarrow> int" where
  "Sigma0 x = rotr 2 x XOR rotr 13 x XOR rotr 22 x"

definition Sigma1 :: "int \<Rightarrow> int" where
  "Sigma1 x = rotr 6 x XOR rotr 11 x XOR rotr 25 x"

definition sigma0 :: "int \<Rightarrow> int" where
  "sigma0 x = rotr 7 x XOR rotr 18 x XOR shr 3 x"

definition sigma1 :: "int \<Rightarrow> int" where
  "sigma1 x = rotr 17 x XOR rotr 19 x XOR shr 10 x"

definition K256 :: "int list" where
  "K256 =
    [1116352408, 1899447441, 3049323471, 3921009573, 961987163, 1508970993,
     2453635748, 2870763221, 3624381080, 310598401, 607225278, 1426881987,
     1925078388, 2162078206, 2614888103, 3248222580, 3835390401, 4022224774,
     264347078, 604807628, 770255983, 1249150122, 1555081692, 1996064986,
     2554220882, 2821834349, 2952996808, 3210313671, 3336571891, 3584528711,
     113926993, 338241895, 666307205, 773529912, 1294757372, 1396182291,
     1695183700, 1986661051, 2177026350, 2456956037, 2730485921, 2820302411,
     3259730800, 3345764771, 3516065817, 3600352804, 4094571909, 275423344,
     430227734, 506948616, 659060556, 883997877, 958139571, 1322822218,
     1537002063, 1747873779, 1955562222, 2024104815, 2227730452, 2361852424,
     2428436474, 2756734187, 3204031479, 3329325298]"

type_synonym sha_state = "int \<times> int \<times> int \<times> int \<times> int \<times> int \<times> int \<times> int"

definition H256 :: sha_state where
  "H256 = (1779033703, 3144134277, 1013904242, 2773480762, 1359893119, 2600822924, 528734635, 1541459225)"

fun round_step :: "int \<Rightarrow> int \<Rightarrow> sha_state \<Rightarrow> sha_state" where
  "round_step t1 t2 (a, b, c, d, e, f, g, h) =
     (add32 t1 t2, a, b, c, add32 d t1, e, f, g)"

fun round256 :: "int \<Rightarrow> int \<Rightarrow> sha_state \<Rightarrow> sha_state" where
  "round256 k w (a, b, c, d, e, f, g, h) =
     round_step (add32 (add32 (add32 h (Sigma1 e)) (add32 (Ch e f g) k)) w)
       (add32 (Sigma0 a) (Maj a b c)) (a, b, c, d, e, f, g, h)"

definition next_w :: "int list \<Rightarrow> int" where
  "next_w ws = add32 (add32 (sigma1 (ws ! 14)) (ws ! 9)) (add32 (sigma0 (ws ! 1)) (ws ! 0))"

fun rounds :: "int list \<Rightarrow> int list \<Rightarrow> sha_state \<Rightarrow> sha_state" where
  "rounds [] ws st = st"
| "rounds (k # ks) ws st = rounds ks (tl ws @ [next_w ws]) (round256 k (hd ws) st)"

fun add_state :: "sha_state \<Rightarrow> sha_state \<Rightarrow> sha_state" where
  "add_state (a, b, c, d, e, f, g, h) (a', b', c', d', e', f', g', h') =
     (add32 a a', add32 b b', add32 c c', add32 d d', add32 e e', add32 f f', add32 g g',
      add32 h h')"

fun be_words :: "int list \<Rightarrow> int list" where
  "be_words (a # b # c # d # rest) = (a * 16777216 + b * 65536 + c * 256 + d) # be_words rest"
| "be_words _ = []"

definition compress :: "sha_state \<Rightarrow> int list \<Rightarrow> sha_state" where
  "compress st block = add_state st (rounds K256 (be_words block) st)"

fun zeros :: "nat \<Rightarrow> int list" where
  "zeros k = (if k = 0 then [] else 0 # zeros (k - 1))"

declare zeros.simps [simp del]

definition be_bytes4 :: "int \<Rightarrow> int list" where
  "be_bytes4 x = [x div 16777216, x div 65536 mod 256, x div 256 mod 256, x mod 256]"

definition pad :: "int list \<Rightarrow> int list" where
  "pad msg = msg @ [128] @ zeros ((119 - length msg mod 64) mod 64) @
     be_bytes4 (int (length msg) * 8 div 4294967296 mod 4294967296) @
     be_bytes4 (int (length msg) * 8 mod 4294967296)"

function blocks :: "sha_state \<Rightarrow> int list \<Rightarrow> sha_state" where
  "blocks st bs = (if length bs < 64 then st else blocks (compress st (take 64 bs)) (drop 64 bs))"
  by pat_completeness auto
termination by (relation "measure (\<lambda>(st, bs). length bs)") auto

declare blocks.simps [simp del]

fun state_bytes :: "sha_state \<Rightarrow> int list" where
  "state_bytes (a, b, c, d, e, f, g, h) =
     be_bytes4 a @ be_bytes4 b @ be_bytes4 c @ be_bytes4 d @
     be_bytes4 e @ be_bytes4 f @ be_bytes4 g @ be_bytes4 h"

definition sha256_int :: "int list \<Rightarrow> int list" where
  "sha256_int msg = state_bytes (blocks H256 (pad msg))"

text \<open>
  The digest of a JavaScript string: the SHA-256 of its UTF-8 bytes. A \<open>string\<close> here is
  the list of those bytes, one \<open>char\<close> each.
\<close>

definition sha256_digest :: "string \<Rightarrow> byte list" where
  "sha256_digest s = map of_int (sha256_int (map (\<lambda>c. int (of_char c)) s))"

text \<open>
  \<open>sighash(nameSpace, ixName)\<close>. \<open>snakeCase\<close> is the function of that name of the npm
  package \<open>snake-case\<close>, taken as a parameter.
\<close>

definition sighash :: "(string \<Rightarrow> string) \<Rightarrow> string \<Rightarrow> string \<Rightarrow> byte list" where
  "sighash snakeCase nameSpace ixName =
     (let name = snakeCase ixName;
          preimage = nameSpace @ '':'' @ name
      in take 8 (sha256_digest preimage))"

section \<open>Results, fuel and the helper facts\<close>

text \<open>
  The equations that spend a unit of fuel are unfolded by name only. More fuel never
  changes a result: what \<open>typeSize\<close>, \<open>accountSize\<close>, \<open>fieldLayout\<close> and
  \<open>typeDefLayout\<close> return or throw with some fuel, they return or throw with any larger
  amount.
\<close>

declare typeSize.simps(2) [simp del] accountSize.simps(2) [simp del]
declare fieldLayout.simps(2) [simp del] typeDefLayout.simps(2) [simp del]

lemma map_result_Some_iff:
  "map_result f r = Some q \<longleftrightarrow>
     (\<exists>e. r = Some (Inl e) \<and> q = Inl e) \<or> (\<exists>v. r = Some (Inr v) \<and> q = Inr (f v))"
  by (cases "(f, r)" rule: map_result.cases) auto

lemma bind_result_Some_iff:
  "bind_result r f = Some q \<longleftrightarrow>
     (\<exists>e. r = Some (Inl e) \<and> q = Inl e) \<or> (\<exists>v. r = Some (Inr v) \<and> f v = Some q)"
  by (cases "(r, f)" rule: bind_result.cases) auto

lemma mapM_mono:
  assumes "\<And>x r. x \<in> set xs \<Longrightarrow> g x = Some r \<Longrightarrow> g' x = Some r"
    and "mapM g xs = Some q"
  shows "mapM g' xs = Some q"
  using assms
proof (induction xs arbitrary: q)
  case Nil
  then show ?case by simp
next
  case (Cons x xs)
  from Cons.prems(2) show ?case
    by (auto simp: bind_result_Some_iff map_result_Some_iff Cons.prems(1) intro!: Cons.IH Cons.prems(1))
qed

lemma enumFieldSize_mono:
  assumes "\<And>t r. g t = Some r \<Longrightarrow> g' t = Some r" and "enumFieldSize g f = Some q"
  shows "enumFieldSize g' f = Some q"
  using assms by (cases f) (simp_all add: enumFieldSize_def)

lemma variantSize_mono:
  assumes "\<And>t r. g t = Some r \<Longrightarrow> g' t = Some r" and "variantSize g v = Some q"
  shows "variantSize g' v = Some q"
proof (cases "variant_fields v")
  case None
  with assms(2) show ?thesis by (simp add: variantSize_def)
next
  case (Some flds)
  have m: "\<And>q. mapM (enumFieldSize g) flds = Some q \<Longrightarrow> mapM (enumFieldSize g') flds = Some q"
    by (rule mapM_mono[where g = "enumFieldSize g"]) (auto intro: enumFieldSize_mono assms(1))
  from assms(2) Some show ?thesis
    by (auto simp: variantSize_def bind_result_Some_iff dest: m)
qed

lemma size_fuel_Suc:
  "(\<forall>idl ty r. typeSize n idl ty = Some r \<longrightarrow> typeSize (Suc n) idl ty = Some r) \<and>
   (\<forall>idl td r. accountSize n idl td = Some r \<longrightarrow> accountSize (Suc n) idl td = Some r)"
proof (induction n)
  case 0
  show ?case by simp
next
  case (Suc n)
  have T: "\<And>idl ty r. typeSize n idl ty = Some r \<Longrightarrow> typeSize (Suc n) idl ty = Some r"
    and A: "\<And>idl td r. accountSize n idl td = Some r \<Longrightarrow> accountSize (Suc n) idl td = Some r"
    using Suc.IH by blast+
  have 1: "typeSize (Suc (Suc n)) idl ty = Some r" if h: "typeSize (Suc n) idl ty = Some r" for idl ty r
  proof (cases ty)
    case (Defined d)
    with h show ?thesis by (auto simp: typeSize.simps(2) Let_def split: if_splits dest: A)
  next
    case (Option t)
    with h show ?thesis by (auto simp: typeSize.simps(2) map_result_Some_iff dest: T)
  next
    case (Array t k)
    with h show ?thesis by (auto simp: typeSize.simps(2) map_result_Some_iff dest: T)
  qed (use h in \<open>simp_all add: typeSize.simps(2)\<close>)
  have 2: "accountSize (Suc (Suc n)) idl td = Some r" if h: "accountSize (Suc n) idl td = Some r" for idl td r
  proof (cases "typedef_type td")
    case (Enum vs)
    have m: "\<And>q. mapM (variantSize (\<lambda>ty. typeSize n idl ty)) vs = Some q \<Longrightarrow>
          mapM (variantSize (\<lambda>ty. typeSize (Suc n) idl ty)) vs = Some q"
      by (rule mapM_mono[where g = "variantSize (\<lambda>ty. typeSize n idl ty)"])
         (auto intro: variantSize_mono[where g = "\<lambda>ty. typeSize n idl ty"] T)
    from h Enum show ?thesis
      by (auto simp: accountSize.simps(2) map_result_Some_iff dest: m)
  next
    case (Struct fo)
    show ?thesis
    proof (cases fo)
      case None
      with h Struct show ?thesis by (simp add: accountSize.simps(2))
    next
      case (Some flds)
      have m: "\<And>q. mapM (\<lambda>f. typeSize n idl (field_type f)) flds = Some q \<Longrightarrow>
          mapM (\<lambda>f. typeSize (Suc n) idl (field_type f)) flds = Some q"
        by (rule mapM_mono[where g = "\<lambda>f. typeSize n idl (field_type f)"]) (auto intro: T)
      from h Struct Some show ?thesis
        by (auto simp: accountSize.simps(2) map_result_Some_iff dest: m)
    qed
  qed
  from 1 2 show ?case by blast
qed

lemma typeSize_fuel_mono:
  "typeSize n idl ty = Some r \<Longrightarrow> n \<le> m \<Longrightarrow> typeSize m idl ty = Some r"
  by (induction m) (auto simp: le_Suc_eq size_fuel_Suc)

lemma accountSize_fuel_mono:
  "accountSize n idl td = Some r \<Longrightarrow> n \<le> m \<Longrightarrow> accountSize m idl td = Some r"
  by (induction m) (auto simp: le_Suc_eq size_fuel_Suc)


lemma enumFieldLayout_mono:
  assumes "\<And>nm t r. g nm t = Some r \<Longrightarrow> g' nm t = Some r" and "enumFieldLayout g f = Some q"
  shows "enumFieldLayout g' f = Some q"
  using assms by (cases f) (simp_all add: enumFieldLayout_def)

lemma variantLayout_mono:
  assumes "\<And>nm t r. g nm t = Some r \<Longrightarrow> g' nm t = Some r"
    and "variantLayout cc g v = Some q"
  shows "variantLayout cc g' v = Some q"
proof (cases "variant_fields v")
  case None
  with assms(2) show ?thesis by (simp add: variantLayout_def)
next
  case (Some flds)
  have m: "\<And>q. mapM (enumFieldLayout g) flds = Some q \<Longrightarrow> mapM (enumFieldLayout g') flds = Some q"
    by (rule mapM_mono[where g = "enumFieldLayout g"]) (auto intro: enumFieldLayout_mono assms(1))
  from assms(2) Some show ?thesis
    by (auto simp: variantLayout_def Let_def map_result_Some_iff dest: m)
qed

lemma layout_fuel_Suc:
  "(\<forall>cc nm ty ts r. fieldLayout n cc nm ty ts = Some r \<longrightarrow>
       fieldLayout (Suc n) cc nm ty ts = Some r) \<and>
   (\<forall>cc td ts nm r. typeDefLayout n cc td ts nm = Some r \<longrightarrow>
       typeDefLayout (Suc n) cc td ts nm = Some r)"
proof (induction n)
  case 0
  show ?case by simp
next
  case (Suc n)
  have F: "\<And>cc nm ty ts r. fieldLayout n cc nm ty ts = Some r \<Longrightarrow>
             fieldLayout (Suc n) cc nm ty ts = Some r"
    and D: "\<And>cc td ts nm r. typeDefLayout n cc td ts nm = Some r \<Longrightarrow>
             typeDefLayout (Suc n) cc td ts nm = Some r"
    using Suc.IH by blast+
  have 1: "fieldLayout (Suc (Suc n)) cc nm ty ts = Some r"
    if h: "fieldLayout (Suc n) cc nm ty ts = Some r" for cc nm ty ts r
  proof (cases ty)
    case None
    with h show ?thesis by (simp add: fieldLayout.simps(2))
  next
    case (Some t)
    show ?thesis
    proof (cases t)
      case (Defined d)
      with h Some show ?thesis
        by (cases ts) (auto simp: fieldLayout.simps(2) Let_def split: if_splits dest: D)
    next
      case (Option u)
      with h Some show ?thesis
        by (auto simp: fieldLayout.simps(2) map_result_Some_iff dest: F)
    next
      case (Vec u)
      with h Some show ?thesis
        by (auto simp: fieldLayout.simps(2) map_result_Some_iff dest: F)
    next
      case (Array u k)
      with h Some show ?thesis
        by (auto simp: fieldLayout.simps(2) map_result_Some_iff dest: F)
    qed (use h Some in \<open>simp_all add: fieldLayout.simps(2)\<close>)
  qed
  have 2: "typeDefLayout (Suc (Suc n)) cc td ts nm = Some r"
    if h: "typeDefLayout (Suc n) cc td ts nm = Some r" for cc td ts nm r
  proof (cases "typedef_type td")
    case (Enum vs)
    let ?g = "\<lambda>k fname fty. fieldLayout k cc fname fty (types_or_empty ts)"
    have m: "\<And>q. mapM (variantLayout cc (?g n)) vs = Some q \<Longrightarrow>
          mapM (variantLayout cc (?g (Suc n))) vs = Some q"
      by (rule mapM_mono[where g = "variantLayout cc (?g n)"])
         (auto intro: variantLayout_mono[where g = "?g n"] F)
    from h Enum show ?thesis
      by (auto simp: typeDefLayout.simps(2) map_result_Some_iff dest: m)
  next
    case (Struct fo)
    show ?thesis
    proof (cases fo)
      case None
      with h Struct show ?thesis by (simp add: typeDefLayout.simps(2))
    next
      case (Some flds)
      let ?g = "\<lambda>k field. fieldLayout k cc (Some (field_name field)) (Some (field_type field))
                   (types_or_empty ts)"
      have m: "\<And>q. mapM (?g n) flds = Some q \<Longrightarrow> mapM (?g (Suc n)) flds = Some q"
        by (rule mapM_mono[where g = "?g n"]) (auto intro: F)
      from h Struct Some show ?thesis
        by (auto simp: typeDefLayout.simps(2) map_result_Some_iff dest: m)
    qed
  qed
  from 1 2 show ?case by blast
qed

lemma fieldLayout_fuel_mono:
  "fieldLayout n cc nm ty ts = Some r \<Longrightarrow> n \<le> m \<Longrightarrow> fieldLayout m cc nm ty ts = Some r"
  by (induction m) (auto simp: le_Suc_eq layout_fuel_Suc)

lemma typeDefLayout_fuel_mono:
  "typeDefLayout n cc td ts nm = Some r \<Longrightarrow> n \<le> m \<Longrightarrow> typeDefLayout m cc td ts nm = Some r"
  by (induction m) (auto simp: le_Suc_eq layout_fuel_Suc)

lemma mapM_Inr_D:
  "mapM f xs = Some (Inr ys) \<Longrightarrow> x \<in> set xs \<Longrightarrow> \<exists>y. f x = Some (Inr y)"
  by (induction xs arbitrary: ys)
     (auto simp: bind_result_Some_iff map_result_Some_iff)

lemma mapM_first_error:
  "mapM f pre = Some (Inr ys) \<Longrightarrow> f x = Some (Inl e) \<Longrightarrow>
   mapM f (pre @ x # post) = Some (Inl e)"
  by (induction pre arbitrary: ys)
     (auto simp: bind_result_Some_iff map_result_Some_iff)

lemma mapM_length:
  "mapM f xs = Some (Inr ys) \<Longrightarrow> length ys = length xs"
  by (induction xs arbitrary: ys)
     (auto simp: bind_result_Some_iff map_result_Some_iff)

lemma mapM_nth:
  "mapM f xs = Some (Inr ys) \<Longrightarrow> i < length xs \<Longrightarrow> f (xs ! i) = Some (Inr (ys ! i))"
proof (induction xs arbitrary: ys i)
  case Nil
  then show ?case by simp
next
  case (Cons x xs)
  then show ?case
    by (cases i) (auto simp: bind_result_Some_iff map_result_Some_iff)
qed

section \<open>Arithmetic of the sizes\<close>

lemma round_double_exact: "\<bar>x\<bar> < 2 ^ 53 \<Longrightarrow> round_double x = Num x"
  by (simp add: round_double_def nat_less_iff)

lemma round_double_small [simp]: "\<bar>x\<bar> < 9007199254740992 \<Longrightarrow> round_double x = Num x"
  using round_double_exact[of x] by simp

lemma js_add_exact: "\<bar>a + b\<bar> < 2 ^ 53 \<Longrightarrow> js_add (Num a) (Num b) = Num (a + b)"
  by (simp add: round_double_exact)

lemma js_mul_exact:
  assumes "\<bar>a * int k\<bar> < 2 ^ 53" and "int k < 2 ^ 53"
  shows "js_mul (Num a) k = Num (a * int k)"
proof -
  have "round_double (int k) = Num (int k)" using assms(2) by (intro round_double_exact) simp
  then show ?thesis using assms(1) by (simp add: js_mul_def round_double_exact)
qed

lemma reduce_add_from_exact:
  assumes "0 \<le> z" and "\<forall>k\<in>set ks. 0 \<le> k" and "z + sum_list ks < 2 ^ 53"
  shows "reduce_add_from (Num z) (map Num ks) = Num (z + sum_list ks)"
  using assms unfolding reduce_add_from_def
proof (induction ks arbitrary: z)
  case Nil
  then show ?case by simp
next
  case (Cons k ks)
  have nn: "0 \<le> sum_list ks" using Cons.prems(2) by (simp add: sum_list_nonneg)
  have "\<bar>z + k\<bar> < 2 ^ 53" using Cons.prems nn by simp
  then have "js_add (Num z) (Num k) = Num (z + k)" by (rule js_add_exact)
  moreover have "foldl js_add (Num (z + k)) (map Num ks) = Num (z + k + sum_list ks)"
    using Cons.prems by (intro Cons.IH) (simp_all add: add.assoc)
  ultimately show ?case by (simp add: add.assoc)
qed

text \<open>
  Two sums and products beyond the exact range, as JavaScript computes them:
  \<open>2 ** 53 + 1\<close> is \<open>2 ** 53\<close>, and \<open>995009990004999 * 999\<close> is
  \<open>994014980014994048\<close>, not \<open>994014980014994001\<close>.
\<close>

lemma double_rounding_examples:
  "js_add (Num 9007199254740992) (Num 1) = Num 9007199254740992"
  "js_mul (Num 995009990004999) 999 = Num 994014980014994048"
  by (simp_all add: js_mul_def round_double_def Let_def bit_length.simps)

section \<open>Properties of the size estimator\<close>

text \<open>
  C6. \<open>typeSize\<close> returns the fixed widths of the primitive types (1 for Bool, U8, I8;
  2 for U16, I16; 4 for U32, I32; 8 for U64, I64; 16 for U128, I128; 32 for PublicKey), the
  placeholder 1 for Bytes, String and Vec, \<open>1 + s\<close> for Option where \<open>s\<close> is the size of the
  inner type, and \<open>s * n\<close> for an Array of length \<open>n\<close>. \<open>accountSize\<close> of a struct is the sum,
  from 0, of the sizes of its fields in declared order: 0 for no fields, and 4 + 1 = 5 for
  a U32 field followed by a String field. The sums and the product are those of JavaScript
  numbers; they are the exact integers as long as the results stay below \<open>2 ^ 53\<close>. Any
  positive amount of fuel is enough for the primitive types; a composite type needs one
  more unit than its inner type.
\<close>

theorem typeSize_widths:
  "typeSize (Suc n) idl Bool = Some (Inr (Num 1)) \<and>
   typeSize (Suc n) idl U8 = Some (Inr (Num 1)) \<and>
   typeSize (Suc n) idl I8 = Some (Inr (Num 1)) \<and>
   typeSize (Suc n) idl U16 = Some (Inr (Num 2)) \<and>
   typeSize (Suc n) idl I16 = Some (Inr (Num 2)) \<and>
   typeSize (Suc n) idl U32 = Some (Inr (Num 4)) \<and>
   typeSize (Suc n) idl I32 = Some (Inr (Num 4)) \<and>
   typeSize (Suc n) idl U64 = Some (Inr (Num 8)) \<and>
   typeSize (Suc n) idl I64 = Some (Inr (Num 8)) \<and>
   typeSize (Suc n) idl U128 = Some (Inr (Num 16)) \<and>
   typeSize (Suc n) idl I128 = Some (Inr (Num 16)) \<and>
   typeSize (Suc n) idl PublicKey = Some (Inr (Num 32)) \<and>
   typeSize (Suc n) idl Bytes = Some (Inr (Num 1)) \<and>
   typeSize (Suc n) idl String = Some (Inr (Num 1)) \<and>
   typeSize (Suc n) idl (Vec t) = Some (Inr (Num 1)) \<and>
   typeSize (Suc n) idl (Option t) = map_result (\<lambda>s. js_add (Num 1) s) (typeSize n idl t) \<and>
   typeSize (Suc n) idl (Array t k) = map_result (\<lambda>s. js_mul s k) (typeSize n idl t) \<and>
   (\<bar>1 + w\<bar> < 2 ^ 53 \<longrightarrow> js_add (Num 1) (Num w) = Num (1 + w)) \<and>
   (\<bar>w * int k\<bar> < 2 ^ 53 \<and> int k < 2 ^ 53 \<longrightarrow> js_mul (Num w) k = Num (w * int k)) \<and>
   accountSize (Suc n) idl \<lparr>typedef_name = nm, typedef_type = Struct (Some flds)\<rparr> =
     map_result (reduce_add_from (Num 0)) (mapM (\<lambda>f. typeSize n idl (field_type f)) flds) \<and>
   ((\<forall>k\<in>set ks. 0 \<le> k) \<and> sum_list ks < 2 ^ 53 \<longrightarrow>
      reduce_add_from (Num 0) (map Num ks) = Num (sum_list ks)) \<and>
   accountSize (Suc n) idl \<lparr>typedef_name = nm, typedef_type = Struct (Some [])\<rparr> =
     Some (Inr (Num 0)) \<and>
   accountSize (Suc (Suc n)) idl \<lparr>typedef_name = nm, typedef_type = Struct (Some
       [\<lparr>field_name = a, field_type = U32\<rparr>, \<lparr>field_name = b, field_type = String\<rparr>])\<rparr> =
     Some (Inr (Num 5))"
proof -
  have sum: "(\<forall>k\<in>set ks. 0 \<le> k) \<and> sum_list ks < 2 ^ 53 \<longrightarrow>
      reduce_add_from (Num 0) (map Num ks) = Num (sum_list ks)"
    using reduce_add_from_exact[of 0 ks] by simp
  have five: "reduce_add_from (Num 0) [Num 4, Num 1] = Num 5"
    by (simp add: reduce_add_from_def round_double_exact)
  show ?thesis
    using sum five
    by (simp add: typeSize.simps(2) accountSize.simps(2) js_add_exact js_mul_exact)
       (simp add: reduce_add_from_def)
qed

theorem typeSize_widths_witness:
  "js_add (Num 1) (Num 8) = Num 9 \<and>
   js_mul (Num 8) 3 = Num 24 \<and>
   reduce_add_from (Num 0) (map Num [4, 1]) = Num 5 \<and>
   typeSize 2 \<lparr>idl_version = ''0.1.0'', idl_name = ''p'', idl_types = None\<rparr> (Option U64) =
     Some (Inr (Num 9)) \<and>
   typeSize 2 \<lparr>idl_version = ''0.1.0'', idl_name = ''p'', idl_types = None\<rparr> (Array U64 3) =
     Some (Inr (Num 24))"
proof -
  let ?idl = "\<lparr>idl_version = ''0.1.0'', idl_name = ''p'', idl_types = None\<rparr>"
  have 1: "\<bar>1 + (8::int)\<bar> < 2 ^ 53" by simp
  have 2: "\<bar>8 * int 3\<bar> < 2 ^ 53 \<and> int 3 < 2 ^ 53" by simp
  have 3: "(\<forall>k\<in>set [4, 1 :: int]. 0 \<le> k) \<and> sum_list [4, 1 :: int] < 2 ^ 53" by simp
  note t = typeSize_widths[of 0 ?idl U64 3 8 "''S''" "[]" "[4, 1]" "''a''" "''b''"]
  from t 1 have a: "js_add (Num 1) (Num 8) = Num 9" by simp
  from t 2 have b: "js_mul (Num 8) 3 = Num 24" by simp
  from t 3 have c: "reduce_add_from (Num 0) (map Num [4, 1]) = Num 5" by simp
  from typeSize_widths[of 1 ?idl U64 3 8 "''S''" "[]" "[4, 1]" "''a''" "''b''"]
       typeSize_widths[of 0 ?idl U64 3 8 "''S''" "[]" "[4, 1]" "''a''" "''b''"]
  have d: "typeSize 2 ?idl (Option U64) = Some (Inr (js_add (Num 1) (Num 8)))"
    and e: "typeSize 2 ?idl (Array U64 3) = Some (Inr (js_mul (Num 8) 3))"
    by (simp_all add: numeral_2_eq_2)
  from a b c d e show ?thesis by simp
qed

text \<open>
  C5. For an enum, \<open>accountSize\<close> is meant to return 1 plus the largest sum of field
  sizes over the variants, a variant without fields counting 0. With a U8 variant and a
  U64 variant the code returns 1 + 8 = 9. With a variant whose \<open>fields\<close> is the empty
  array the code throws a TypeError instead of counting 0 for it: the sizes of a variant
  are summed by \<open>reduce\<close> without an initial value, which the struct branch does supply.
\<close>

theorem accountSize_enum_example_and_empty_fields:
  "accountSize (Suc (Suc n)) idl \<lparr>typedef_name = nm, typedef_type = Enum
      [\<lparr>variant_name = ''A'', variant_fields = Some [Named \<lparr>field_name = x, field_type = U8\<rparr>]\<rparr>,
       \<lparr>variant_name = ''B'', variant_fields = Some [Named \<lparr>field_name = y, field_type = U64\<rparr>]\<rparr>]\<rparr>
     = Some (Inr (Num 9)) \<and>
   accountSize (Suc (Suc n)) idl \<lparr>typedef_name = nm, typedef_type = Enum
      [\<lparr>variant_name = ''A'', variant_fields = Some []\<rparr>,
       \<lparr>variant_name = ''B'', variant_fields = Some [Named \<lparr>field_name = y, field_type = U64\<rparr>]\<rparr>]\<rparr>
     = Some (Inl TypeError)"
  by (simp add: accountSize.simps(2) typeSize.simps(2) variantSize_def enumFieldSize_def Math_max_def)

lemma variantSize_empty_fields:
  "variant_fields v = Some [] \<Longrightarrow> variantSize g v = Some (Inl TypeError)"
  by (simp add: variantSize_def)

text \<open>
  C10. An enum with a variant whose \<open>fields\<close> is present and empty never gets a size
  from \<open>accountSize\<close>, whatever the fuel; when the variants declared before it have sizes,
  the exception is the TypeError of \<open>reduce\<close> on an empty array. A variant whose
  \<open>fields\<close> is absent contributes 0: an enum of one such variant has size 1.
\<close>

theorem accountSize_empty_fields_throws:
  assumes "typedef_type td = Enum (pre @ v # post)" and "variant_fields v = Some []"
  shows "(\<forall>n s. accountSize n idl td \<noteq> Some (Inr s)) \<and>
         (\<forall>n. (\<exists>sizes. mapM (variantSize (\<lambda>ty. typeSize n idl ty)) pre = Some (Inr sizes)) \<longrightarrow>
              accountSize (Suc n) idl td = Some (Inl TypeError)) \<and>
         (\<forall>n nm a. accountSize (Suc n) idl \<lparr>typedef_name = nm, typedef_type =
              Enum [\<lparr>variant_name = a, variant_fields = None\<rparr>]\<rparr> = Some (Inr (Num 1)))"
proof (intro conjI allI impI)
  fix n s
  show "accountSize n idl td \<noteq> Some (Inr s)"
  proof (cases n)
    case 0
    then show ?thesis by simp
  next
    case (Suc m)
    show ?thesis
    proof
      assume "accountSize n idl td = Some (Inr s)"
      with Suc assms(1) obtain sizes where
        "mapM (variantSize (\<lambda>ty. typeSize m idl ty)) (pre @ v # post) = Some (Inr sizes)"
        by (auto simp: accountSize.simps(2) map_result_Some_iff)
      from mapM_Inr_D[OF this, of v] assms(2) show False
        by (simp add: variantSize_empty_fields)
    qed
  qed
next
  fix n
  assume "\<exists>sizes. mapM (variantSize (\<lambda>ty. typeSize n idl ty)) pre = Some (Inr sizes)"
  then obtain sizes where "mapM (variantSize (\<lambda>ty. typeSize n idl ty)) pre = Some (Inr sizes)" ..
  from mapM_first_error[OF this variantSize_empty_fields[OF assms(2)], of post]
  show "accountSize (Suc n) idl td = Some (Inl TypeError)"
    using assms(1) by (simp add: accountSize.simps(2))
next
  fix n nm a
  show "accountSize (Suc n) idl \<lparr>typedef_name = nm, typedef_type =
              Enum [\<lparr>variant_name = a, variant_fields = None\<rparr>]\<rparr> = Some (Inr (Num 1))"
    by (simp add: accountSize.simps(2) variantSize_def Math_max_def)
qed

theorem accountSize_empty_fields_throws_witness:
  "accountSize 2 \<lparr>idl_version = ''0.1.0'', idl_name = ''p'', idl_types = None\<rparr>
     \<lparr>typedef_name = ''E'', typedef_type = Enum
       [\<lparr>variant_name = ''A'', variant_fields = Some [Named \<lparr>field_name = ''x'', field_type = U8\<rparr>]\<rparr>,
        \<lparr>variant_name = ''B'', variant_fields = Some []\<rparr>,
        \<lparr>variant_name = ''C'', variant_fields = None\<rparr>]\<rparr> = Some (Inl TypeError)"
proof -
  let ?idl = "\<lparr>idl_version = ''0.1.0'', idl_name = ''p'', idl_types = None\<rparr>"
  let ?a = "\<lparr>variant_name = ''A'', variant_fields = Some [Named \<lparr>field_name = ''x'', field_type = U8\<rparr>]\<rparr>"
  let ?b = "\<lparr>variant_name = ''B'', variant_fields = Some []\<rparr>"
  let ?c = "\<lparr>variant_name = ''C'', variant_fields = None\<rparr>"
  let ?td = "\<lparr>typedef_name = ''E'', typedef_type = Enum ([?a] @ ?b # [?c])\<rparr>"
  have 1: "typedef_type ?td = Enum ([?a] @ ?b # [?c])" by simp
  have 2: "variant_fields ?b = Some []" by simp
  have 3: "\<exists>sizes. mapM (variantSize (\<lambda>ty. typeSize 1 ?idl ty)) [?a] = Some (Inr sizes)"
    by (simp add: variantSize_def enumFieldSize_def typeSize.simps(2))
  from accountSize_empty_fields_throws[OF 1 2, of ?idl] 3
  have "accountSize (Suc 1) ?idl ?td = Some (Inl TypeError)" by blast
  then show ?thesis by (simp add: numeral_2_eq_2)
qed

section \<open>Errors of both the estimator and the compiler\<close>

text \<open>
  C7. A reference \<open>Defined d\<close> whose name matches no type definition of the supplied
  list, or more than one, makes \<open>fieldLayout\<close> and \<open>typeSize\<close> throw the IdlError
  "Type not found" instead of returning a layout or a size; \<open>typeSize\<close> does the same
  when the schema has no list of types at all.
\<close>

theorem defined_type_not_found:
  assumes "length (filter (\<lambda>t. typedef_name t = d) ts) \<noteq> 1"
  shows "fieldLayout (Suc n) camelCase name (Some (Defined d)) (Some ts) =
           Some (Inl (IdlError_TypeNotFound d)) \<and>
         typeSize (Suc n) (idl\<lparr>idl_types := Some ts\<rparr>) (Defined d) =
           Some (Inl (IdlError_TypeNotFound d)) \<and>
         typeSize (Suc n) (idl\<lparr>idl_types := None\<rparr>) (Defined d) =
           Some (Inl (IdlError_TypeNotFound d))"
  using assms
  by (simp add: fieldLayout.simps(2) typeSize.simps(2) filtered_types_def)

theorem defined_type_not_found_witness:
  "fieldLayout 1 id (Some ''owner'') (Some (Defined ''Ghost''))
     (Some [\<lparr>typedef_name = ''Real'', typedef_type = Struct (Some [])\<rparr>]) =
     Some (Inl (IdlError_TypeNotFound ''Ghost'')) \<and>
   typeSize 1 \<lparr>idl_version = ''0.1.0'', idl_name = ''p'',
       idl_types = Some [\<lparr>typedef_name = ''Real'', typedef_type = Struct (Some [])\<rparr>]\<rparr>
     (Defined ''Ghost'') = Some (Inl (IdlError_TypeNotFound ''Ghost''))"
proof -
  let ?ts = "[\<lparr>typedef_name = ''Real'', typedef_type = Struct (Some [])\<rparr>]"
  have h: "length (filter (\<lambda>t. typedef_name t = ''Ghost'') ?ts) \<noteq> 1" by simp
  from defined_type_not_found[OF h, of 0 id "Some ''owner''"
      "\<lparr>idl_version = ''0.1.0'', idl_name = ''p'', idl_types = None\<rparr>"]
  show ?thesis by simp
qed

lemma enumField_tuple:
  "enumFieldSize g (Tuple t) = Some (Inl Error_TupleEnum)"
  "enumFieldLayout h (Tuple t) = Some (Inl Error_TupleEnum)"
  by (simp_all add: enumFieldSize_def enumFieldLayout_def)

lemma result_cases:
  obtains "r = None" | e where "r = Some (Inl e)" | v where "r = Some (Inr v)"
proof (cases r)
  case None
  then show ?thesis by (rule that(1))
next
  case (Some a)
  then show ?thesis by (cases a) (auto intro: that)
qed

lemma bind_and_then_throw:
  "bind_result (and_then r (Some (Inl e))) k = and_then r (Some (Inl e))"
  by (cases r rule: result_cases) simp_all

lemma map_and_then_throw:
  "map_result h (and_then r (and_then r' (Some (Inl e)))) = and_then r (and_then r' (Some (Inl e)))"
  by (cases r rule: result_cases; cases r' rule: result_cases) simp_all

lemma mapM_then_throw:
  assumes "f x = and_then r (Some (Inl e))"
  shows "mapM f (pre @ x # post) = and_then (mapM f pre) (and_then r (Some (Inl e)))"
proof (induction pre)
  case Nil
  show ?case by (simp add: assms bind_and_then_throw)
next
  case (Cons p pre)
  show ?case
  proof (cases "f p" rule: result_cases)
    case 1
    then show ?thesis by simp
  next
    case (2 e')
    then show ?thesis by simp
  next
    case (3 y)
    with Cons.IH show ?thesis
      by (cases "mapM f pre" rule: result_cases; cases r rule: result_cases) simp_all
  qed
qed

lemma variantSize_tuple_eq:
  assumes "variant_fields v = Some (fpre @ Tuple t # fpost)"
  shows "variantSize g v = and_then (mapM (enumFieldSize g) fpre) (Some (Inl Error_TupleEnum))"
proof -
  have "enumFieldSize g (Tuple t) = and_then (Some (Inr ())) (Some (Inl Error_TupleEnum))"
    by (simp add: enumField_tuple)
  from mapM_then_throw[of "enumFieldSize g" "Tuple t" "Some (Inr ())" Error_TupleEnum fpre fpost, OF this]
    assms
  show ?thesis by (simp add: variantSize_def bind_and_then_throw)
qed

lemma variantLayout_tuple_eq:
  assumes "variant_fields v = Some (fpre @ Tuple t # fpost)"
  shows "variantLayout cc h v =
           and_then (mapM (enumFieldLayout h) fpre) (Some (Inl Error_TupleEnum))"
proof -
  have "enumFieldLayout h (Tuple t) = and_then (Some (Inr ())) (Some (Inl Error_TupleEnum))"
    by (simp add: enumField_tuple)
  from mapM_then_throw[of "enumFieldLayout h" "Tuple t" "Some (Inr ())" Error_TupleEnum fpre fpost, OF this]
    assms
  have "mapM (enumFieldLayout h) (fpre @ Tuple t # fpost) =
          and_then (mapM (enumFieldLayout h) fpre) (Some (Inl Error_TupleEnum))"
    by simp
  with assms show ?thesis
    by (cases "mapM (enumFieldLayout h) fpre" rule: result_cases)
       (simp_all add: variantLayout_def Let_def)
qed

text \<open>
  C8, as the code has it. For an enum with a variant that has a tuple-style (unnamed)
  field, \<open>accountSize\<close> and \<open>typeDefLayout\<close> never return a size or a layout, whatever
  the fuel. Both evaluate the variants declared before that variant, then the fields
  declared before that field, and then throw the error "Tuple enum variants not yet
  implemented.": that error is what they throw when the earlier variants and fields are
  evaluated without an exception, and an exception of an earlier variant or field is
  thrown in its place.
\<close>

theorem tuple_variant_rejected:
  assumes "typedef_type td = Enum (pre @ v # post)"
    and "variant_fields v = Some (fpre @ Tuple t # fpost)"
  shows "(\<forall>n s. accountSize n idl td \<noteq> Some (Inr s)) \<and>
         (\<forall>n l. typeDefLayout n camelCase td types name \<noteq> Some (Inr l)) \<and>
         (\<forall>n. accountSize (Suc n) idl td =
              and_then (mapM (variantSize (\<lambda>ty. typeSize n idl ty)) pre)
                (and_then (mapM (enumFieldSize (\<lambda>ty. typeSize n idl ty)) fpre)
                   (Some (Inl Error_TupleEnum)))) \<and>
         (\<forall>n. typeDefLayout (Suc n) camelCase td types name =
              and_then (mapM (variantLayout camelCase
                  (\<lambda>fname fty. fieldLayout n camelCase fname fty (types_or_empty types))) pre)
                (and_then (mapM (enumFieldLayout
                  (\<lambda>fname fty. fieldLayout n camelCase fname fty (types_or_empty types))) fpre)
                   (Some (Inl Error_TupleEnum)))) \<and>
         (\<forall>n. (\<exists>sizes. mapM (variantSize (\<lambda>ty. typeSize n idl ty)) pre = Some (Inr sizes)) \<and>
              (\<exists>ss. mapM (enumFieldSize (\<lambda>ty. typeSize n idl ty)) fpre = Some (Inr ss)) \<longrightarrow>
              accountSize (Suc n) idl td = Some (Inl Error_TupleEnum)) \<and>
         (\<forall>n. (\<exists>ls. mapM (variantLayout camelCase
                        (\<lambda>fname fty. fieldLayout n camelCase fname fty (types_or_empty types))) pre
                    = Some (Inr ls)) \<and>
              (\<exists>ls. mapM (enumFieldLayout
                        (\<lambda>fname fty. fieldLayout n camelCase fname fty (types_or_empty types))) fpre
                    = Some (Inr ls)) \<longrightarrow>
              typeDefLayout (Suc n) camelCase td types name = Some (Inl Error_TupleEnum))"
proof -
  have A: "accountSize (Suc n) idl td =
              and_then (mapM (variantSize (\<lambda>ty. typeSize n idl ty)) pre)
                (and_then (mapM (enumFieldSize (\<lambda>ty. typeSize n idl ty)) fpre)
                   (Some (Inl Error_TupleEnum)))" for n
    using mapM_then_throw[of "variantSize (\<lambda>ty. typeSize n idl ty)" v
        "mapM (enumFieldSize (\<lambda>ty. typeSize n idl ty)) fpre" Error_TupleEnum pre post,
        OF variantSize_tuple_eq[OF assms(2)]]
      assms(1)
    by (simp add: accountSize.simps(2) map_and_then_throw)
  have L: "typeDefLayout (Suc n) camelCase td types name =
              and_then (mapM (variantLayout camelCase
                  (\<lambda>fname fty. fieldLayout n camelCase fname fty (types_or_empty types))) pre)
                (and_then (mapM (enumFieldLayout
                  (\<lambda>fname fty. fieldLayout n camelCase fname fty (types_or_empty types))) fpre)
                   (Some (Inl Error_TupleEnum)))" for n
    using mapM_then_throw[of "variantLayout camelCase
          (\<lambda>fname fty. fieldLayout n camelCase fname fty (types_or_empty types))" v
        "mapM (enumFieldLayout
          (\<lambda>fname fty. fieldLayout n camelCase fname fty (types_or_empty types))) fpre"
        Error_TupleEnum pre post,
        OF variantLayout_tuple_eq[OF assms(2)]]
      assms(1)
    by (simp add: typeDefLayout.simps(2) map_and_then_throw)
  have nA: "accountSize n idl td \<noteq> Some (Inr s)" for n s
  proof (cases n)
    case 0
    then show ?thesis by simp
  next
    case (Suc m)
    show ?thesis unfolding Suc A
      by (cases "mapM (variantSize (\<lambda>ty. typeSize m idl ty)) pre" rule: result_cases;
          cases "mapM (enumFieldSize (\<lambda>ty. typeSize m idl ty)) fpre" rule: result_cases)
         simp_all
  qed
  have nL: "typeDefLayout n camelCase td types name \<noteq> Some (Inr l)" for n l
  proof (cases n)
    case 0
    then show ?thesis by simp
  next
    case (Suc m)
    let ?h = "\<lambda>fname fty. fieldLayout m camelCase fname fty (types_or_empty types)"
    show ?thesis unfolding Suc L
      by (cases "mapM (variantLayout camelCase ?h) pre" rule: result_cases;
          cases "mapM (enumFieldLayout ?h) fpre" rule: result_cases)
         simp_all
  qed
  have cA: "accountSize (Suc n) idl td = Some (Inl Error_TupleEnum)"
    if "(\<exists>sizes. mapM (variantSize (\<lambda>ty. typeSize n idl ty)) pre = Some (Inr sizes)) \<and>
        (\<exists>ss. mapM (enumFieldSize (\<lambda>ty. typeSize n idl ty)) fpre = Some (Inr ss))" for n
    using that by (auto simp: A)
  have cL: "typeDefLayout (Suc n) camelCase td types name = Some (Inl Error_TupleEnum)"
    if "(\<exists>ls. mapM (variantLayout camelCase
                  (\<lambda>fname fty. fieldLayout n camelCase fname fty (types_or_empty types))) pre
              = Some (Inr ls)) \<and>
        (\<exists>ls. mapM (enumFieldLayout
                  (\<lambda>fname fty. fieldLayout n camelCase fname fty (types_or_empty types))) fpre
              = Some (Inr ls))" for n
    using that by (auto simp: L)
  from A L nA nL cA cL show ?thesis by blast
qed

theorem tuple_variant_rejected_witness:
  "accountSize 2 \<lparr>idl_version = ''0.1.0'', idl_name = ''p'', idl_types = None\<rparr>
     \<lparr>typedef_name = ''E'', typedef_type = Enum
       [\<lparr>variant_name = ''A'', variant_fields = None\<rparr>,
        \<lparr>variant_name = ''B'', variant_fields =
           Some [Named \<lparr>field_name = ''x'', field_type = U8\<rparr>, Tuple U64]\<rparr>]\<rparr>
     = Some (Inl Error_TupleEnum) \<and>
   typeDefLayout 2 id
     \<lparr>typedef_name = ''E'', typedef_type = Enum
       [\<lparr>variant_name = ''A'', variant_fields = None\<rparr>,
        \<lparr>variant_name = ''B'', variant_fields =
           Some [Named \<lparr>field_name = ''x'', field_type = U8\<rparr>, Tuple U64]\<rparr>]\<rparr>
     None None = Some (Inl Error_TupleEnum)"
proof -
  let ?idl = "\<lparr>idl_version = ''0.1.0'', idl_name = ''p'', idl_types = None\<rparr>"
  let ?a = "\<lparr>variant_name = ''A'', variant_fields = None\<rparr>"
  let ?x = "Named \<lparr>field_name = ''x'', field_type = U8\<rparr>"
  let ?b = "\<lparr>variant_name = ''B'', variant_fields = Some ([?x] @ Tuple U64 # [])\<rparr>"
  let ?td = "\<lparr>typedef_name = ''E'', typedef_type = Enum ([?a] @ ?b # [])\<rparr>"
  let ?h = "\<lambda>fname fty. fieldLayout 1 id fname fty (types_or_empty None)"
  have 1: "typedef_type ?td = Enum ([?a] @ ?b # [])" by simp
  have 2: "variant_fields ?b = Some ([?x] @ Tuple U64 # [])" by simp
  have 3: "\<exists>sizes. mapM (variantSize (\<lambda>ty. typeSize 1 ?idl ty)) [?a] = Some (Inr sizes)"
    by (simp add: variantSize_def)
  have 4: "\<exists>ss. mapM (enumFieldSize (\<lambda>ty. typeSize 1 ?idl ty)) [?x] = Some (Inr ss)"
    by (simp add: enumFieldSize_def typeSize.simps(2))
  have 5: "\<exists>ls. mapM (variantLayout id ?h) [?a] = Some (Inr ls)"
    by (simp add: variantLayout_def)
  have 6: "\<exists>ls. mapM (enumFieldLayout ?h) [?x] = Some (Inr ls)"
    by (simp add: enumFieldLayout_def fieldLayout.simps(2))
  from tuple_variant_rejected[OF 1 2, of ?idl id None None] 3 4 5 6
  have "accountSize (Suc 1) ?idl ?td = Some (Inl Error_TupleEnum) \<and>
        typeDefLayout (Suc 1) id ?td None None = Some (Inl Error_TupleEnum)"
    by blast
  then show ?thesis by (simp add: numeral_2_eq_2)
qed

text \<open>
  C8 as stated, for every such variant, fails: when a variant declared before the tuple
  variant has the empty array as its \<open>fields\<close>, \<open>accountSize\<close> throws the TypeError of
  \<open>reduce\<close>, and when it has a field of an unknown defined type, \<open>accountSize\<close> and
  \<open>typeDefLayout\<close> throw "Type not found", not the error for tuple variants.
\<close>

theorem tuple_variant_other_error_counterexample:
  "accountSize 2 \<lparr>idl_version = ''0.1.0'', idl_name = ''p'', idl_types = None\<rparr>
     \<lparr>typedef_name = ''E'', typedef_type = Enum
       [\<lparr>variant_name = ''A'', variant_fields = Some []\<rparr>,
        \<lparr>variant_name = ''B'', variant_fields = Some [Tuple U8]\<rparr>]\<rparr>
     = Some (Inl TypeError) \<and>
   accountSize 2 \<lparr>idl_version = ''0.1.0'', idl_name = ''p'', idl_types = None\<rparr>
     \<lparr>typedef_name = ''E'', typedef_type = Enum
       [\<lparr>variant_name = ''A'', variant_fields =
           Some [Named \<lparr>field_name = ''x'', field_type = Defined ''Ghost''\<rparr>]\<rparr>,
        \<lparr>variant_name = ''B'', variant_fields = Some [Tuple U8]\<rparr>]\<rparr>
     = Some (Inl (IdlError_TypeNotFound ''Ghost'')) \<and>
   typeDefLayout 2 id
     \<lparr>typedef_name = ''E'', typedef_type = Enum
       [\<lparr>variant_name = ''A'', variant_fields =
           Some [Named \<lparr>field_name = ''x'', field_type = Defined ''Ghost''\<rparr>]\<rparr>,
        \<lparr>variant_name = ''B'', variant_fields = Some [Tuple U8]\<rparr>]\<rparr>
     (Some []) None = Some (Inl (IdlError_TypeNotFound ''Ghost''))"
proof -
  have 2: "(2::nat) = Suc (Suc 0)" by simp
  show ?thesis
    unfolding 2
    by (simp add: accountSize.simps(2) typeSize.simps(2) typeDefLayout.simps(2)
        fieldLayout.simps(2) variantSize_def enumFieldSize_def variantLayout_def
        enumFieldLayout_def filtered_types_def types_or_empty_def)
qed

section \<open>Properties of the layout compiler\<close>

text \<open>
  C2. \<open>fieldLayout\<close> is meant to compile Vec, Option and Array to the vec, option and array
  layouts over the compiled inner type. It does so for Option (\<open>borsh.option\<close>: the
  presence flag and the inner layout) and for Array (\<open>borsh.array\<close> of the inner layout
  and the length). For Vec it reads the inner type from the property \<open>vec\<close>, which a
  type \<open>{Vec: inner}\<close> does not have, compiles \<open>undefined\<close> and throws a TypeError, for
  every inner type.
\<close>

theorem fieldLayout_composites:
  "fieldLayout (Suc (Suc n)) camelCase name (Some (Vec inner)) types = Some (Inl TypeError) \<and>
   fieldLayout (Suc n) camelCase name (Some (Option inner)) types =
     map_result (\<lambda>l. borsh_option l (map_option camelCase name))
       (fieldLayout n camelCase None (Some inner) types) \<and>
   fieldLayout (Suc n) camelCase name (Some (Array inner len)) types =
     map_result (\<lambda>l. borsh_array l len (map_option camelCase name))
       (fieldLayout n camelCase None (Some inner) types)"
  by (simp add: fieldLayout.simps(2))

text \<open>
  C1. Decoding what was encoded can only give the value back where there is a layout. For a
  type \<open>Vec inner\<close> the function \<open>fieldLayout\<close> returns no layout, whatever the inner type,
  the type definitions and the fuel: for \<open>{Vec: "U8"}\<close> it throws a TypeError.
\<close>

theorem fieldLayout_Vec_no_layout:
  "fieldLayout n camelCase name (Some (Vec inner)) types \<noteq> Some (Inr l) \<and>
   fieldLayout (Suc (Suc n)) camelCase None (Some (Vec U8)) None = Some (Inl TypeError)"
proof (cases n)
  case 0
  then show ?thesis by (simp add: fieldLayout.simps(2))
next
  case (Suc m)
  then show ?thesis
    by (cases m) (simp_all add: fieldLayout.simps(2))
qed

lemma fieldLayout_plain:
  "plain t \<Longrightarrow> depth t < n \<Longrightarrow>
   \<exists>l. compileField_spec (map_option cc nm) t = Some l \<and>
       fieldLayout n cc nm (Some t) ts = Some (Inr l)"
proof (induction t arbitrary: n nm)
  case (Defined d)
  then show ?case by simp
next
  case (Vec t)
  then show ?case by simp
next
  case (Option t)
  from Option.prems obtain m where n: "n = Suc m" and d: "depth t < m" and p: "plain t"
    by (cases n) auto
  from Option.IH[OF p d, of None] obtain l where
    "compileField_spec None t = Some l" "fieldLayout m cc None (Some t) ts = Some (Inr l)"
    by auto
  then show ?case by (simp add: n fieldLayout.simps(2))
next
  case (Array t k)
  from Array.prems obtain m where n: "n = Suc m" and d: "depth t < m" and p: "plain t"
    by (cases n) auto
  from Array.IH[OF p d, of None] obtain l where
    "compileField_spec None t = Some l" "fieldLayout m cc None (Some t) ts = Some (Inr l)"
    by auto
  then show ?case by (simp add: n fieldLayout.simps(2))
qed (auto simp: gr0_conv_Suc fieldLayout.simps(2))

lemma enumFieldLayout_Named:
  "enumFieldLayout h (Named fld) = h (Some (field_name fld)) (Some (field_type fld))"
  by (simp add: enumFieldLayout_def)

lemma enumFields_plain:
  "list_all (plain_field n) flds \<Longrightarrow>
   \<exists>fls. those (map (compileEnumField_spec cc) flds) = Some fls \<and>
         mapM (enumFieldLayout (\<lambda>fname fty. fieldLayout n cc fname fty ts)) flds = Some (Inr fls)"
proof (induction flds)
  case Nil
  then show ?case by simp
next
  case (Cons f flds)
  from Cons.prems obtain fld where f: "f = Named fld" and p: "plain (field_type fld)"
    and d: "depth (field_type fld) < n" and rest: "list_all (plain_field n) flds"
    by (cases f) auto
  from fieldLayout_plain[OF p d, of cc "Some (field_name fld)" ts] obtain l where
    l: "compileField_spec (Some (cc (field_name fld))) (field_type fld) = Some l"
       "fieldLayout n cc (Some (field_name fld)) (Some (field_type fld)) ts = Some (Inr l)"
    by auto
  from Cons.IH[OF rest] obtain fls where
    "those (map (compileEnumField_spec cc) flds) = Some fls"
    "mapM (enumFieldLayout (\<lambda>fname fty. fieldLayout n cc fname fty ts)) flds = Some (Inr fls)"
    by auto
  with l f show ?case by (simp add: enumFieldLayout_Named)
qed

lemma variant_plain:
  assumes "plain_variant n v"
  shows "\<exists>l. compileVariant_spec cc v = Some l \<and>
             variantLayout cc (\<lambda>fname fty. fieldLayout n cc fname fty ts) v = Some (Inr l)"
proof (cases "variant_fields v")
  case None
  then show ?thesis by (simp add: compileVariant_spec_def variantLayout_def)
next
  case (Some flds)
  with assms have "list_all (plain_field n) flds" by (simp add: plain_variant_def)
  from enumFields_plain[OF this, of cc ts] Some show ?thesis
    by (auto simp: compileVariant_spec_def variantLayout_def)
qed

lemma variants_plain:
  "\<forall>v\<in>set vs. plain_variant n v \<Longrightarrow>
   \<exists>ls. those (map (compileVariant_spec cc) vs) = Some ls \<and>
        mapM (variantLayout cc (\<lambda>fname fty. fieldLayout n cc fname fty ts)) vs = Some (Inr ls)"
proof (induction vs)
  case Nil
  then show ?case by simp
next
  case (Cons v vs)
  from variant_plain[of n v cc ts] Cons.prems obtain l where
    "compileVariant_spec cc v = Some l"
    "variantLayout cc (\<lambda>fname fty. fieldLayout n cc fname fty ts) v = Some (Inr l)"
    by auto
  moreover from Cons.IH Cons.prems obtain ls where
    "those (map (compileVariant_spec cc) vs) = Some ls"
    "mapM (variantLayout cc (\<lambda>fname fty. fieldLayout n cc fname fty ts)) vs = Some (Inr ls)"
    by auto
  ultimately show ?case by simp
qed

lemma encode_variant_first:
  assumes "i < length ls" and "layout_property (ls ! i) = Some nm"
    and "\<forall>j<i. layout_property (ls ! j) \<noteq> Some nm"
  shows "encode_variant ls k nm x =
           (if k + i < 256 then append_bytes (Inr [of_nat (k + i)]) (encode (ls ! i) x)
            else Inl RangeError)"
  using assms
proof (induction ls arbitrary: i k)
  case Nil
  then show ?case by simp
next
  case (Cons l ls)
  show ?case
  proof (cases i)
    case 0
    with Cons.prems show ?thesis by simp
  next
    case (Suc i')
    from Cons.prems(3) Suc have hd: "layout_property l \<noteq> Some nm" by auto
    from Cons.prems(3) Suc have "\<forall>j<i'. layout_property (ls ! j) \<noteq> Some nm" by auto
    from Cons.IH[OF _ _ this, of "Suc k"] Cons.prems(1,2) Suc hd show ?thesis by simp
  qed
qed

lemma replicate_rustEnum:
  "(case name of Some nm \<Rightarrow> replicate_layout (borsh_rustEnum variants None) nm
    | None \<Rightarrow> borsh_rustEnum variants name) = borsh_rustEnum variants name"
  by (cases name) simp_all

lemma byte_of_nat_unat: "i < 256 \<Longrightarrow> unat (of_nat i :: byte) = i"
  by (simp add: unat_of_nat)

lemma variantLayout_shape:
  assumes "variantLayout cc h v = Some (Inr l)"
  shows "\<exists>fls. l = borsh_struct fls (Some (cc (variant_name v))) \<and>
           (case variant_fields v of None \<Rightarrow> fls = []
            | Some flds \<Rightarrow> mapM (enumFieldLayout h) flds = Some (Inr fls))"
  using assms
  by (cases "variant_fields v") (auto simp: variantLayout_def Let_def map_result_Some_iff)


lemma those_nth:
  "those xs = Some ys \<Longrightarrow> length ys = length xs \<and> (\<forall>i<length xs. xs ! i = Some (ys ! i))"
proof (induction xs arbitrary: ys)
  case Nil
  then show ?case by simp
next
  case (Cons x xs)
  then show ?case
    by (auto split: option.splits simp: nth_Cons split: nat.splits)
qed

lemma compileVariant_spec_shape:
  assumes "compileVariant_spec cc v = Some l"
  shows "\<exists>fls. l = borsh_struct fls (Some (cc (variant_name v))) \<and>
           (case variant_fields v of None \<Rightarrow> fls = []
            | Some flds \<Rightarrow> those (map (compileEnumField_spec cc) flds) = Some fls)"
  using assms by (cases "variant_fields v") (auto simp: compileVariant_spec_def)

lemma rustEnum_encode_variant:
  assumes m: "mapM (variantLayout cc h) vs = Some (Inr variants)"
    and i: "i < length vs" "i < 256"
    and first: "\<forall>j<i. cc (variant_name (vs ! j)) \<noteq> cc (variant_name (vs ! i))"
  shows "encode (borsh_rustEnum variants name) (VEnum (cc (variant_name (vs ! i))) x) =
           append_bytes (Inr [of_nat i]) (encode (variants ! i) x)"
proof -
  have len: "length variants = length vs" by (rule mapM_length[OF m])
  have lp: "layout_property (variants ! j) = Some (cc (variant_name (vs ! j)))"
    if "j < length vs" for j
    using variantLayout_shape[OF mapM_nth[OF m that]] by auto
  have "\<forall>j<i. layout_property (variants ! j) \<noteq> Some (cc (variant_name (vs ! i)))"
    using first i(1) by (auto simp: lp)
  from encode_variant_first[OF _ lp[OF i(1)] this, of 0 x] i len show ?thesis by simp
qed

text \<open>
  C3, as the code has it. When \<open>typeDefLayout\<close> returns a layout for an enum, it is the
  \<open>rustEnum\<close> of one struct per variant, in declaration order, each under the camel-cased
  name of its variant; the struct of the variant at index \<open>i\<close> holds the compiled fields of
  that variant in order and is empty when the variant has no \<open>fields\<close>. For a variant at
  an index \<open>i\<close> below 256 whose camel-cased name differs from those of the variants declared
  before it, encoding a value of that variant gives the byte \<open>i\<close> followed by the encoded
  fields of that struct, and nothing after the byte when there are no fields.
  \<open>typeDefLayout\<close> does return a layout, the one the spec describes, when every variant has
  no \<open>fields\<close> or named fields of types built from primitive tags, Option and Array. For
  variants A, B, C a value of B is encoded with the leading byte 1.
\<close>

theorem enum_layout_discriminant:
  assumes "typedef_type td = Enum vs" and "i < length vs" and "i < 256"
    and "\<forall>j<i. camelCase (variant_name (vs ! j)) \<noteq> camelCase (variant_name (vs ! i))"
  shows
    "(\<forall>L. typeDefLayout (Suc n) camelCase td types name = Some (Inr L) \<longrightarrow>
        (\<exists>variants fls.
           L = borsh_rustEnum variants name \<and> length variants = length vs \<and>
           variants ! i = borsh_struct fls (Some (camelCase (variant_name (vs ! i)))) \<and>
           (case variant_fields (vs ! i) of
              None \<Rightarrow> fls = []
            | Some flds \<Rightarrow>
                mapM (enumFieldLayout
                  (\<lambda>fname fty. fieldLayout n camelCase fname fty (types_or_empty types))) flds
                = Some (Inr fls)) \<and>
           (\<forall>xs. encode L (VEnum (camelCase (variant_name (vs ! i))) (VStruct xs)) =
                 append_bytes (Inr [of_nat i]) (encode_fields fls xs)))) \<and>
     ((\<forall>v\<in>set vs. plain_variant n v) \<longrightarrow>
        (\<exists>variants fls.
           those (map (compileVariant_spec camelCase) vs) = Some variants \<and>
           typeDefLayout (Suc n) camelCase td types name =
             Some (Inr (borsh_rustEnum variants name)) \<and>
           variants ! i = borsh_struct fls (Some (camelCase (variant_name (vs ! i)))) \<and>
           (case variant_fields (vs ! i) of
              None \<Rightarrow> fls = []
            | Some flds \<Rightarrow> those (map (compileEnumField_spec camelCase) flds) = Some fls) \<and>
           (\<forall>xs. encode (borsh_rustEnum variants name)
                   (VEnum (camelCase (variant_name (vs ! i))) (VStruct xs)) =
                 append_bytes (Inr [of_nat i]) (encode_fields fls xs)))) \<and>
     encode_fields [] [] = Inr [] \<and>
     unat (of_nat i :: byte) = i"
proof (intro conjI allI impI)
  let ?h = "\<lambda>fname fty. fieldLayout n camelCase fname fty (types_or_empty types)"
  fix L
  assume "typeDefLayout (Suc n) camelCase td types name = Some (Inr L)"
  with assms(1) obtain variants where
    m: "mapM (variantLayout camelCase ?h) vs = Some (Inr variants)" and
    L: "L = borsh_rustEnum variants name"
    by (auto simp: typeDefLayout.simps(2) map_result_Some_iff replicate_rustEnum)
  have len: "length variants = length vs" by (rule mapM_length[OF m])
  from variantLayout_shape[OF mapM_nth[OF m assms(2)]] obtain fls where
    s: "variants ! i = borsh_struct fls (Some (camelCase (variant_name (vs ! i))))" and
    f: "case variant_fields (vs ! i) of None \<Rightarrow> fls = []
        | Some flds \<Rightarrow> mapM (enumFieldLayout ?h) flds = Some (Inr fls)"
    by auto
  have e: "encode L (VEnum (camelCase (variant_name (vs ! i))) (VStruct xs)) =
             append_bytes (Inr [of_nat i]) (encode_fields fls xs)" for xs
    using rustEnum_encode_variant[OF m assms(2,3,4), of name "VStruct xs"] s by (simp add: L)
  from L len s f e
  show "\<exists>variants fls.
           L = borsh_rustEnum variants name \<and> length variants = length vs \<and>
           variants ! i = borsh_struct fls (Some (camelCase (variant_name (vs ! i)))) \<and>
           (case variant_fields (vs ! i) of
              None \<Rightarrow> fls = []
            | Some flds \<Rightarrow> mapM (enumFieldLayout ?h) flds = Some (Inr fls)) \<and>
           (\<forall>xs. encode L (VEnum (camelCase (variant_name (vs ! i))) (VStruct xs)) =
                 append_bytes (Inr [of_nat i]) (encode_fields fls xs))"
    by blast
next
  let ?h = "\<lambda>fname fty. fieldLayout n camelCase fname fty (types_or_empty types)"
  assume "\<forall>v\<in>set vs. plain_variant n v"
  from variants_plain[OF this, of camelCase "types_or_empty types"] obtain variants where
    t: "those (map (compileVariant_spec camelCase) vs) = Some variants" and
    m: "mapM (variantLayout camelCase ?h) vs = Some (Inr variants)"
    by auto
  have L: "typeDefLayout (Suc n) camelCase td types name =
             Some (Inr (borsh_rustEnum variants name))"
    using assms(1) m by (simp add: typeDefLayout.simps(2) replicate_rustEnum)
  from those_nth[OF t] assms(2) have "compileVariant_spec camelCase (vs ! i) = Some (variants ! i)"
    by auto
  from compileVariant_spec_shape[OF this] obtain fls where
    s: "variants ! i = borsh_struct fls (Some (camelCase (variant_name (vs ! i))))" and
    f: "case variant_fields (vs ! i) of None \<Rightarrow> fls = []
        | Some flds \<Rightarrow> those (map (compileEnumField_spec camelCase) flds) = Some fls"
    by auto
  have e: "encode (borsh_rustEnum variants name)
             (VEnum (camelCase (variant_name (vs ! i))) (VStruct xs)) =
             append_bytes (Inr [of_nat i]) (encode_fields fls xs)" for xs
    using rustEnum_encode_variant[OF m assms(2,3,4), of name "VStruct xs"] s by simp
  from t L s f e
  show "\<exists>variants fls.
           those (map (compileVariant_spec camelCase) vs) = Some variants \<and>
           typeDefLayout (Suc n) camelCase td types name =
             Some (Inr (borsh_rustEnum variants name)) \<and>
           variants ! i = borsh_struct fls (Some (camelCase (variant_name (vs ! i)))) \<and>
           (case variant_fields (vs ! i) of
              None \<Rightarrow> fls = []
            | Some flds \<Rightarrow> those (map (compileEnumField_spec camelCase) flds) = Some fls) \<and>
           (\<forall>xs. encode (borsh_rustEnum variants name)
                   (VEnum (camelCase (variant_name (vs ! i))) (VStruct xs)) =
                 append_bytes (Inr [of_nat i]) (encode_fields fls xs))"
    by blast
next
  show "encode_fields [] [] = Inr []" by simp
  show "unat (of_nat i :: byte) = i" by (rule byte_of_nat_unat[OF assms(3)])
qed

lemmas camelCase_defs = camelCase_model_def is_upper_def is_lower_def to_lower_def to_upper_def
  is_separator_def upper_letters_def lower_letters_def

lemma le_bytes_1: "le_bytes 1 v = [of_nat (v mod 256)]"
  by simp

lemma le_bytes_2: "le_bytes 2 v = [of_nat (v mod 256), of_nat (v div 256 mod 256)]"
proof -
  have "le_bytes (Suc (Suc 0)) v = [of_nat (v mod 256), of_nat (v div 256 mod 256)]"
    by (simp only: le_bytes.simps)
  moreover have "(2::nat) = Suc (Suc 0)" by simp
  ultimately show ?thesis by (simp only:)
qed

theorem enum_layout_discriminant_witness:
  "typeDefLayout 3 camelCase_model \<lparr>typedef_name = ''Status'', typedef_type = Enum
      [\<lparr>variant_name = ''Pending'', variant_fields = None\<rparr>,
       \<lparr>variant_name = ''InProgress'', variant_fields = Some
          [Named \<lparr>field_name = ''step'', field_type = U8\<rparr>,
           Named \<lparr>field_name = ''retry_count'', field_type = Option U16\<rparr>]\<rparr>,
       \<lparr>variant_name = ''Done'', variant_fields = None\<rparr>]\<rparr> None None =
     Some (Inr (borsh_rustEnum
       [borsh_struct [] (Some ''pending''),
        borsh_struct [borsh_u8 (Some ''step''),
                      borsh_option (borsh_u16 None) (Some ''retryCount'')] (Some ''inProgress''),
        borsh_struct [] (Some ''done'')]
       None)) \<and>
   encode (borsh_rustEnum
       [borsh_struct [] (Some ''pending''),
        borsh_struct [borsh_u8 (Some ''step''),
                      borsh_option (borsh_u16 None) (Some ''retryCount'')] (Some ''inProgress''),
        borsh_struct [] (Some ''done'')]
       None)
     (VEnum ''inProgress'' (VStruct [VInt 5, VOption (Some (VInt 258))])) = Inr [1, 5, 1, 2, 1] \<and>
   typeDefLayout 1 camelCase_model \<lparr>typedef_name = ''E'', typedef_type = Enum
      [\<lparr>variant_name = ''A'', variant_fields = None\<rparr>,
       \<lparr>variant_name = ''B'', variant_fields = None\<rparr>,
       \<lparr>variant_name = ''C'', variant_fields = None\<rparr>]\<rparr> None None =
     Some (Inr (borsh_rustEnum
       [borsh_struct [] (Some ''a''), borsh_struct [] (Some ''b''), borsh_struct [] (Some ''c'')]
       None)) \<and>
   encode (borsh_rustEnum
       [borsh_struct [] (Some ''a''), borsh_struct [] (Some ''b''), borsh_struct [] (Some ''c'')]
       None) (VEnum ''b'' (VStruct [])) = Inr [1]"
proof -
  let ?a = "\<lparr>variant_name = ''Pending'', variant_fields = None\<rparr>"
  let ?b = "\<lparr>variant_name = ''InProgress'', variant_fields = Some
          [Named \<lparr>field_name = ''step'', field_type = U8\<rparr>,
           Named \<lparr>field_name = ''retry_count'', field_type = Option U16\<rparr>]\<rparr>"
  let ?c = "\<lparr>variant_name = ''Done'', variant_fields = None\<rparr>"
  let ?vs = "[?a, ?b, ?c]"
  let ?td = "\<lparr>typedef_name = ''Status'', typedef_type = Enum ?vs\<rparr>"
  let ?fls = "[borsh_u8 (Some ''step''), borsh_option (borsh_u16 None) (Some ''retryCount'')]"
  let ?variants = "[borsh_struct [] (Some ''pending''), borsh_struct ?fls (Some ''inProgress''),
        borsh_struct [] (Some ''done'')]"
  have names: "camelCase_model ''Pending'' = ''pending''"
    "camelCase_model ''InProgress'' = ''inProgress''"
    "camelCase_model ''Done'' = ''done''"
    "camelCase_model ''step'' = ''step''"
    "camelCase_model ''retry_count'' = ''retryCount''"
    by (simp_all add: camelCase_defs)
  have 1: "typedef_type ?td = Enum ?vs" by simp
  have 2: "1 < length ?vs" by simp
  have 3: "(1::nat) < 256" by simp
  have 4: "\<forall>j<1. camelCase_model (variant_name (?vs ! j)) \<noteq>
             camelCase_model (variant_name (?vs ! 1))"
    by (simp add: names)
  have 5: "\<forall>v\<in>set ?vs. plain_variant 2 v" by (simp add: plain_variant_def)
  have t: "those (map (compileVariant_spec camelCase_model) ?vs) = Some ?variants"
    by (simp add: compileVariant_spec_def names)
  from enum_layout_discriminant[OF 1 2 3 4, of 2 None None] 5 obtain variants fls where
    a: "those (map (compileVariant_spec camelCase_model) ?vs) = Some variants" and
    b: "typeDefLayout (Suc 2) camelCase_model ?td None None =
          Some (Inr (borsh_rustEnum variants None))" and
    c: "variants ! 1 = borsh_struct fls (Some (camelCase_model (variant_name (?vs ! 1))))" and
    d: "\<forall>xs. encode (borsh_rustEnum variants None)
              (VEnum (camelCase_model (variant_name (?vs ! 1))) (VStruct xs)) =
            append_bytes (Inr [of_nat 1]) (encode_fields fls xs)"
    by blast
  from a t have v: "variants = ?variants" by simp
  from c v have f: "fls = ?fls" by (simp add: names)
  have L: "typeDefLayout 3 camelCase_model ?td None None = Some (Inr (borsh_rustEnum ?variants None))"
    using b v by (simp add: eval_nat_numeral)
  from d v f have "encode (borsh_rustEnum ?variants None)
      (VEnum ''inProgress'' (VStruct [VInt 5, VOption (Some (VInt 258))])) =
      append_bytes (Inr [of_nat 1])
        (encode_fields ?fls [VInt 5, VOption (Some (VInt 258))])"
    by (simp add: names)
  also have "\<dots> = Inr [1, 5, 1, 2, 1]"
    by (simp add: append_bytes_def encode_uint_def le_bytes_1 le_bytes_2)
  finally have first: "encode (borsh_rustEnum ?variants None)
      (VEnum ''inProgress'' (VStruct [VInt 5, VOption (Some (VInt 258))])) = Inr [1, 5, 1, 2, 1]" .
  have abc: "camelCase_model ''A'' = ''a''" "camelCase_model ''B'' = ''b''"
    "camelCase_model ''C'' = ''c''"
    by (simp_all add: camelCase_defs)
  have second: "typeDefLayout 1 camelCase_model \<lparr>typedef_name = ''E'', typedef_type = Enum
      [\<lparr>variant_name = ''A'', variant_fields = None\<rparr>,
       \<lparr>variant_name = ''B'', variant_fields = None\<rparr>,
       \<lparr>variant_name = ''C'', variant_fields = None\<rparr>]\<rparr> None None =
     Some (Inr (borsh_rustEnum
       [borsh_struct [] (Some ''a''), borsh_struct [] (Some ''b''), borsh_struct [] (Some ''c'')]
       None))"
    by (simp add: abc typeDefLayout.simps(2) variantLayout_def)
  have third: "encode (borsh_rustEnum
       [borsh_struct [] (Some ''a''), borsh_struct [] (Some ''b''), borsh_struct [] (Some ''c'')]
       None) (VEnum ''b'' (VStruct [])) = Inr [1]"
    by (simp add: append_bytes_def)
  from L first second third show ?thesis by simp
qed

text \<open>
  C3 as stated, for every enum, fails: the layout finds the variant of a value by its
  camel-cased name, so of two variants \<open>FooBar\<close> and \<open>Foo_Bar\<close>, both \<open>fooBar\<close> in camel
  case, a value of the second, at index 1, is encoded with the leading byte 0.
\<close>

theorem enum_layout_name_clash_counterexample:
  "camelCase_model ''FooBar'' = ''fooBar'' \<and>
   camelCase_model ''Foo_Bar'' = ''fooBar'' \<and>
   typeDefLayout 1 camelCase_model \<lparr>typedef_name = ''E'', typedef_type = Enum
      [\<lparr>variant_name = ''FooBar'', variant_fields = None\<rparr>,
       \<lparr>variant_name = ''Foo_Bar'', variant_fields = None\<rparr>]\<rparr> None None =
     Some (Inr (borsh_rustEnum
       [borsh_struct [] (Some ''fooBar''), borsh_struct [] (Some ''fooBar'')] None)) \<and>
   encode (borsh_rustEnum
       [borsh_struct [] (Some ''fooBar''), borsh_struct [] (Some ''fooBar'')] None)
     (VEnum (camelCase_model ''Foo_Bar'') (VStruct [])) = Inr [0]"
proof -
  have names: "camelCase_model ''FooBar'' = ''fooBar''" "camelCase_model ''Foo_Bar'' = ''fooBar''"
    by (simp_all add: camelCase_defs)
  show ?thesis
    by (simp add: names typeDefLayout.simps(2) variantLayout_def append_bytes_def)
qed

section \<open>Properties of the account codec\<close>

lemma length_le_bytes: "length (le_bytes k v) = k"
  by (induction k arbitrary: v) simp_all

lemma le_nat_le_bytes: "v < 256 ^ k \<Longrightarrow> le_nat (le_bytes k v) = v"
proof (induction k arbitrary: v)
  case 0
  then show ?case by simp
next
  case (Suc k)
  from Suc.prems have "v div 256 < 256 ^ k"
    by (simp add: less_mult_imp_div_less mult.commute)
  then have "le_nat (le_bytes k (v div 256)) = v div 256" by (rule Suc.IH)
  moreover have "unat (of_nat (v mod 256) :: byte) = v mod 256"
    by (simp add: unat_of_nat)
  ultimately show ?case by simp
qed

lemma le_bytes_4:
  "le_bytes 4 v = [of_nat (v mod 256), of_nat (v div 256 mod 256),
     of_nat (v div 256 div 256 mod 256), of_nat (v div 256 div 256 div 256 mod 256)]"
proof -
  have "le_bytes (Suc (Suc (Suc (Suc 0)))) v = [of_nat (v mod 256), of_nat (v div 256 mod 256),
     of_nat (v div 256 div 256 mod 256), of_nat (v div 256 div 256 div 256 mod 256)]"
    by (simp only: le_bytes.simps)
  moreover have "(4::nat) = Suc (Suc (Suc (Suc 0)))" by simp
  ultimately show ?thesis by (simp only:)
qed

lemma encode_account:
  assumes "length (authority acc) = 32" and "length (data acc) < 2 ^ 32"
  shows "encode IDL_ACCOUNT_LAYOUT (account_value acc) =
         Inr (authority acc @ le_bytes 4 (length (data acc)) @ data acc)"
  using assms
  by (simp add: IDL_ACCOUNT_LAYOUT_def account_value_def encode_blob_def append_bytes_def)

lemma decode_account:
  assumes "length a = 32" and "length d < 2 ^ 32"
  shows "decode IDL_ACCOUNT_LAYOUT (a @ le_bytes 4 (length d) @ d) =
         Inr (VStruct [VKey a, VBytes d], [])"
proof -
  have "length d < 256 ^ 4" using assms(2) by simp
  then have "le_nat (le_bytes 4 (length d)) = length d" by (rule le_nat_le_bytes)
  then show ?thesis using assms(1)
    by (simp add: IDL_ACCOUNT_LAYOUT_def decode_blob_def length_le_bytes Let_def)
qed

text \<open>
  C9, as the code has it. \<open>encodeIdlAccount\<close> encodes into a buffer of 1000 bytes. For an
  account whose data has at most 964 bytes it returns exactly the bytes of the account
  layout: the 32 bytes of the authority, the length of the data as 4 little-endian bytes,
  then the data, 36 + data.length bytes in all; and \<open>decodeIdlAccount\<close> of those bytes
  returns the account.
\<close>

theorem encodeIdlAccount_bytes:
  assumes "length (authority acc) = 32" and "length (data acc) \<le> 964"
  shows "encodeIdlAccount acc = encode IDL_ACCOUNT_LAYOUT (account_value acc) \<and>
         encodeIdlAccount acc =
           Inr (authority acc @ le_bytes 4 (length (data acc)) @ data acc) \<and>
         length (authority acc @ le_bytes 4 (length (data acc)) @ data acc) =
           36 + length (data acc) \<and>
         le_nat (le_bytes 4 (length (data acc))) = length (data acc) \<and>
         decodeIdlAccount (authority acc @ le_bytes 4 (length (data acc)) @ data acc) = Inr acc"
proof -
  let ?bs = "authority acc @ le_bytes 4 (length (data acc)) @ data acc"
  have lt: "length (data acc) < 2 ^ 32" using assms(2) by simp
  have enc: "encode IDL_ACCOUNT_LAYOUT (account_value acc) = Inr ?bs"
    by (rule encode_account[OF assms(1) lt])
  have len: "length ?bs = 36 + length (data acc)"
    using assms(1) by (simp add: length_le_bytes)
  have "encodeIdlAccount acc = Inr ?bs"
    using assms(2) len
    by (simp add: encodeIdlAccount_def layout_encode_def enc)
  moreover have "le_nat (le_bytes 4 (length (data acc))) = length (data acc)"
    using lt by (intro le_nat_le_bytes) simp
  moreover have "decodeIdlAccount ?bs = Inr acc"
    by (simp add: decodeIdlAccount_def decode_account[OF assms(1) lt])
  ultimately show ?thesis using enc len by simp
qed

theorem encodeIdlAccount_bytes_witness:
  "encodeIdlAccount \<lparr>authority = replicate 32 7, data = [1, 2, 3]\<rparr> =
     Inr (replicate 32 7 @ [3, 0, 0, 0] @ [1, 2, 3]) \<and>
   decodeIdlAccount (replicate 32 7 @ [3, 0, 0, 0] @ [1, 2, 3]) =
     Inr \<lparr>authority = replicate 32 7, data = [1, 2, 3]\<rparr>"
proof -
  let ?acc = "\<lparr>authority = replicate 32 (7 :: byte), data = [1, 2, 3 :: byte]\<rparr>"
  have 1: "length (authority ?acc) = 32" by simp
  have 2: "length (data ?acc) \<le> 964" by simp
  have 3: "length (data ?acc) = 3" by simp
  have 4: "authority ?acc @ le_bytes 4 (length (data ?acc)) @ data ?acc =
           replicate 32 7 @ [3, 0, 0, 0] @ [1, 2, 3]"
    by (simp only: 3) (simp add: le_bytes_4)
  from encodeIdlAccount_bytes[OF 1 2]
  have "encodeIdlAccount ?acc =
          Inr (authority ?acc @ le_bytes 4 (length (data ?acc)) @ data ?acc) \<and>
        decodeIdlAccount (authority ?acc @ le_bytes 4 (length (data ?acc)) @ data ?acc) =
          Inr ?acc"
    by blast
  then show ?thesis by (simp only: 4)
qed

text \<open>
  C9 as stated, for every account, fails: with 965 bytes of data the encoding needs
  36 + 965 = 1001 bytes, which the buffer of 1000 bytes cannot hold, and
  \<open>encodeIdlAccount\<close> returns no bytes at all: the encoder raises a RangeError.
\<close>

theorem encodeIdlAccount_large_counterexample:
  "encodeIdlAccount \<lparr>authority = replicate 32 7, data = replicate 965 0\<rparr> = Inl RangeError"
proof -
  let ?acc = "\<lparr>authority = replicate 32 (7 :: byte), data = replicate 965 (0 :: byte)\<rparr>"
  have "encode IDL_ACCOUNT_LAYOUT (account_value ?acc) =
        Inr (authority ?acc @ le_bytes 4 (length (data ?acc)) @ data ?acc)"
    by (rule encode_account) simp_all
  then show ?thesis
    by (simp add: encodeIdlAccount_def layout_encode_def length_le_bytes)
qed

section \<open>Properties of the discriminator\<close>

text \<open>
  The model of SHA-256 gives the digest of the FIPS 180-4 example message \<open>abc\<close>,
  ba7816bf 8f01cfea 414140de 5dae2223 b00361a3 96177a9c b410ff61 f20015ad.
\<close>

lemmas sha_defs = sha256_int_def pad_def blocks.simps compress_def K256_def H256_def
  next_w_def be_bytes4_def zeros.simps add32_def rotr_def shr_def Ch_def Maj_def
  Sigma0_def Sigma1_def sigma0_def sigma1_def

lemma length_state_bytes: "length (state_bytes st) = 32"
  by (induction st rule: state_bytes.induct) (simp add: be_bytes4_def)

lemma length_sha256_digest: "length (sha256_digest s) = 32"
  by (simp add: sha256_digest_def sha256_int_def length_state_bytes)

lemma sha256_int_abc:
  "sha256_int [97, 98, 99] =
     [186, 120, 22, 191, 143, 1, 207, 234, 65, 65, 64, 222, 93, 174, 34, 35,
      176, 3, 97, 163, 150, 23, 122, 156, 180, 16, 255, 97, 242, 0, 21, 173]"
  by (simp add: sha_defs)

lemma digest_initialize:
  "take 8 (sha256_digest ''myapp:initialize'') = [250, 197, 153, 70, 107, 80, 169, 70]"
  by (simp add: sha256_digest_def sha_defs)

lemma digest_close:
  "take 8 (sha256_digest ''myapp:close'') = [100, 118, 22, 23, 251, 115, 2, 182]"
  by (simp add: sha256_digest_def sha_defs)

text \<open>
  C4. \<open>sighash(nameSpace, ixName)\<close> is the first 8 bytes of the SHA-256 digest of
  \<open>nameSpace + ":" + snakeCase(ixName)\<close>, always 8 bytes long. It is a function of its two
  arguments and of nothing else, so repeated calls agree. With a \<open>snakeCase\<close> that leaves
  the lower-case words \<open>initialize\<close> and \<open>close\<close> as they are,
  \<open>sighash("myapp", "initialize")\<close> is fa c5 99 46 6b 50 a9 46 and
  \<open>sighash("myapp", "close")\<close> is 64 76 16 17 fb 73 02 b6, which differ.
\<close>

theorem sighash_first_8_bytes:
  "sighash snakeCase nameSpace ixName =
     take 8 (sha256_digest (nameSpace @ '':'' @ snakeCase ixName)) \<and>
   length (sighash snakeCase nameSpace ixName) = 8 \<and>
   (snakeCase ''initialize'' = ''initialize'' \<and> snakeCase ''close'' = ''close'' \<longrightarrow>
      sighash snakeCase ''myapp'' ''initialize'' = [250, 197, 153, 70, 107, 80, 169, 70] \<and>
      sighash snakeCase ''myapp'' ''close'' = [100, 118, 22, 23, 251, 115, 2, 182] \<and>
      sighash snakeCase ''myapp'' ''initialize'' \<noteq> sighash snakeCase ''myapp'' ''close'')"
proof (intro conjI impI)
  show "sighash snakeCase nameSpace ixName =
     take 8 (sha256_digest (nameSpace @ '':'' @ snakeCase ixName))"
    by (simp add: sighash_def)
  show "length (sighash snakeCase nameSpace ixName) = 8"
    by (simp add: sighash_def length_sha256_digest)
next
  assume h: "snakeCase ''initialize'' = ''initialize'' \<and> snakeCase ''close'' = ''close''"
  show i: "sighash snakeCase ''myapp'' ''initialize'' = [250, 197, 153, 70, 107, 80, 169, 70]"
    using digest_initialize h by (simp add: sighash_def)
  show c: "sighash snakeCase ''myapp'' ''close'' = [100, 118, 22, 23, 251, 115, 2, 182]"
    using digest_close h by (simp add: sighash_def)
  show "sighash snakeCase ''myapp'' ''initialize'' \<noteq> sighash snakeCase ''myapp'' ''close''"
    unfolding i c by simp
qed

theorem sighash_first_8_bytes_witness:
  "sighash id ''myapp'' ''initialize'' = [250, 197, 153, 70, 107, 80, 169, 70] \<and>
   sighash id ''myapp'' ''close'' = [100, 118, 22, 23, 251, 115, 2, 182] \<and>
   sighash id ''myapp'' ''initialize'' \<noteq> sighash id ''myapp'' ''close''"
proof -
  have h: "id ''initialize'' = ''initialize'' \<and> id ''close'' = ''close''" by simp
  from sighash_first_8_bytes[of id] h show ?thesis by blast
qed

end
